theory Spec2Isabelle
  imports Complex_Main
begin

section \<open>Modelling conventions\<close>

text \<open>
  The development embeds the classes \<open>Document\<close>, \<open>TextDocument\<close>, \<open>Stopwords\<close> and
  \<open>Corpus\<close> of tiny-tfidf.

  \<^item> A JavaScript \<open>Map\<close> is an association list with pairwise distinct keys in insertion
    order: \<open>Map_set\<close> overwrites the value of a key that is present (keeping its
    position) and appends a new key at the end, as \<open>Map.prototype.set\<close> does.
  \<^item> A JavaScript string is a \<open>string\<close>; a \<open>char\<close> stands for a code unit below 256
    (the regular expression of the tokenizer only accepts code units of that range).
  \<^item> A JavaScript number that counts (a term frequency, a length, a size) is a \<open>nat\<close>;
    a weight or a score is a \<open>real\<close>: arithmetic is exact, rounding of IEEE doubles is
    not modelled. \<open>NaN\<close>, which only arises from \<open>undefined\<close> operands here, is the
    value \<open>None\<close> of a \<open>real option\<close>.
  \<^item> \<open>null\<close> and \<open>undefined\<close> results are \<open>None\<close>; a thrown exception is \<open>Inl\<close> of
    the exception.
  \<^item> The memoised fields (\<open>_termFrequencies\<close>, \<open>_collectionFrequencies\<close>,
    \<open>_collectionFrequencyWeights\<close>, \<open>_documentVectors\<close>) are filled once from fields that
    never change afterwards, so each getter is modelled by the value its
    \<open>_calculate...\<close> method stores.
\<close>

section \<open>JavaScript values used by the library\<close>

datatype error = Error string | TypeError

type_synonym ('k, 'v) js_map = "('k \<times> 'v) list"

fun Map_set :: "('k, 'v) js_map \<Rightarrow> 'k \<Rightarrow> 'v \<Rightarrow> ('k, 'v) js_map" where
  "Map_set [] k v = [(k, v)]"
| "Map_set ((k', v') # m) k v =
     (if k' = k then (k', v) # m else (k', v') # Map_set m k v)"

definition Map_get :: "('k, 'v) js_map \<Rightarrow> 'k \<Rightarrow> 'v option" where
  "Map_get m k = map_of m k"

definition Map_has :: "('k, 'v) js_map \<Rightarrow> 'k \<Rightarrow> bool" where
  "Map_has m k = (case map_of m k of None \<Rightarrow> False | Some v \<Rightarrow> True)"

definition Map_keys :: "('k, 'v) js_map \<Rightarrow> 'k list" where
  "Map_keys m = map fst m"

definition Map_values :: "('k, 'v) js_map \<Rightarrow> 'v list" where
  "Map_values m = map snd m"

definition Map_size :: "('k, 'v) js_map \<Rightarrow> nat" where
  "Map_size m = length m"

text \<open>\<open>new Map(iterable)\<close>: the entries are set one after the other.\<close>

definition Map_new :: "('k \<times> 'v) list \<Rightarrow> ('k, 'v) js_map" where
  "Map_new kvps = fold (\<lambda>kv m. Map_set m (fst kv) (snd kv)) kvps []"

text \<open>
  \<open>Array.prototype.sort((a, b) => b[1] - a[1])\<close>: a stable sort, descending by the
  second component.
\<close>

definition sort_descending :: "('a \<times> real) list \<Rightarrow> ('a \<times> real) list" where
  "sort_descending xs = sort_key (\<lambda>d. - snd d) xs"

section \<open>Document\<close>

datatype document =
    Document (words: "string list")
  | TextDocument (words: "string list") (getText: string)

text \<open>\<open>Document._calculateTermFrequencies\<close>: one pass over the words.\<close>

definition count_word :: "string \<Rightarrow> (string, nat) js_map \<Rightarrow> (string, nat) js_map" where
  "count_word word tfs =
     (case Map_get tfs word of
        Some n \<Rightarrow> Map_set tfs word (n + 1)
      | None \<Rightarrow> Map_set tfs word 1)"

definition calculateTermFrequencies :: "document \<Rightarrow> (string, nat) js_map" where
  "calculateTermFrequencies d = fold count_word (words d) []"

definition getTermFrequency :: "document \<Rightarrow> string \<Rightarrow> nat" where
  "getTermFrequency d term =
     (case Map_get (calculateTermFrequencies d) term of None \<Rightarrow> 0 | Some tf \<Rightarrow> tf)"

definition getLength :: "document \<Rightarrow> nat" where
  "getLength d = length (words d)"

definition getUniqueTerms :: "document \<Rightarrow> string list" where
  "getUniqueTerms d = Map_keys (calculateTermFrequencies d)"

section \<open>TextDocument\<close>

text \<open>The character class \<open>[a-zA-Z\<dots>]\<close> of the tokenizer, by code unit: \<open>a-z\<close>,
  \<open>A-Z\<close>, \<open>U+00C0-U+00D6\<close>, \<open>U+00D8-U+00F6\<close>, \<open>U+00F8-U+00FF\<close>.\<close>

definition isLetter :: "char \<Rightarrow> bool" where
  "isLetter c =
     (let n = (of_char c :: nat) in
        (97 \<le> n \<and> n \<le> 122) \<or> (65 \<le> n \<and> n \<le> 90) \<or> (192 \<le> n \<and> n \<le> 214) \<or>
        (216 \<le> n \<and> n \<le> 246) \<or> (248 \<le> n \<and> n \<le> 255))"

definition isDigit :: "char \<Rightarrow> bool" where
  "isDigit c = (let n = (of_char c :: nat) in 48 \<le> n \<and> n \<le> 57)"

text \<open>\<open>String.prototype.toLowerCase\<close> on code units below 256.\<close>

definition toLowerCase_char :: "char \<Rightarrow> char" where
  "toLowerCase_char c =
     (let n = (of_char c :: nat) in
        if (65 \<le> n \<and> n \<le> 90) \<or> (192 \<le> n \<and> n \<le> 214) \<or> (216 \<le> n \<and> n \<le> 222)
        then char_of (n + 32) else c)"

definition toLowerCase :: "string \<Rightarrow> string" where
  "toLowerCase word = map toLowerCase_char word"

text \<open>
  \<open>text.match(/[...]+/g)\<close>: the maximal runs of letters from left to right, or \<open>null\<close>
  when there is none. \<open>letter_runs acc cs\<close> scans \<open>cs\<close> with the run read so far
  (reversed) in \<open>acc\<close>.
\<close>

fun letter_runs :: "string \<Rightarrow> string \<Rightarrow> string list" where
  "letter_runs acc [] = (if acc = [] then [] else [rev acc])"
| "letter_runs acc (c # cs) =
     (if isLetter c then letter_runs (c # acc) cs
      else if acc = [] then letter_runs [] cs
      else rev acc # letter_runs [] cs)"

definition match_letters :: "string \<Rightarrow> string list option" where
  "match_letters text = (case letter_runs [] text of [] \<Rightarrow> None | w # ws \<Rightarrow> Some (w # ws))"

text \<open>The filter of the constructor: \<open>word.length < 2 || word.match(/^\d/)\<close> drops a word.\<close>

definition keep_word :: "string \<Rightarrow> bool" where
  "keep_word word =
     (if length word < 2 \<or> (case word of [] \<Rightarrow> False | c # cs \<Rightarrow> isDigit c)
      then False else True)"

text \<open>\<open>new TextDocument(text)\<close>: calling \<open>.filter\<close> on a \<open>null\<close> match raises a
  \<open>TypeError\<close>.\<close>

definition TextDocument_new :: "string \<Rightarrow> error + document" where
  "TextDocument_new text =
     (case match_letters text of
        None \<Rightarrow> Inl TypeError
      | Some ms \<Rightarrow> Inr (TextDocument (map toLowerCase (filter keep_word ms)) text))"

datatype contents = Text string | Doc document

text \<open>\<open>TextDocument.from\<close>: a \<open>Document\<close> is passed through.\<close>

definition TextDocument_from :: "contents \<Rightarrow> error + document" where
  "TextDocument_from textOrDocument =
     (case textOrDocument of Doc d \<Rightarrow> Inr d | Text text \<Rightarrow> TextDocument_new text)"

section \<open>Stopwords\<close>

text \<open>
  A JavaScript \<open>Set\<close> is the list of its members in insertion order, each once:
  \<open>new Set(iterable)\<close> adds the values one after the other, and adding a member again
  changes nothing.
\<close>

definition Set_add :: "'a list \<Rightarrow> 'a \<Rightarrow> 'a list" where
  "Set_add s x = (if List.member s x then s else s @ [x])"

definition Set_new :: "'a list \<Rightarrow> 'a list" where
  "Set_new xs = fold (\<lambda>x s. Set_add s x) xs []"

text \<open>
  A \<open>Stopwords\<close> instance (the class with the static \<open>from\<close> that the constructor of
  \<open>Corpus\<close> calls) holds the \<open>Set\<close> of its terms; \<open>getStopwordList\<close> is the array of
  that set and \<open>includes\<close> is membership.
\<close>

datatype stopwords = Stopwords (getStopwordList: "string list")

definition Stopwords_new :: "string list \<Rightarrow> stopwords" where
  "Stopwords_new terms = Stopwords (Set_new terms)"

definition Stopwords_includes :: "stopwords \<Rightarrow> string \<Rightarrow> bool" where
  "Stopwords_includes s word = List.member (getStopwordList s) word"

definition Stopwords_with :: "stopwords \<Rightarrow> string list \<Rightarrow> stopwords" where
  "Stopwords_with s additionalStopwords =
     Stopwords_new (getStopwordList s @ additionalStopwords)"

text \<open>
  \<open>Stopwords.from\<close> takes an instance, which it returns, or an array of terms, from
  which it builds an instance; an absent value gives the empty instance.
\<close>

datatype stopwords_or_terms = Instance stopwords | Terms "string list"

definition Stopwords_from :: "stopwords_or_terms option \<Rightarrow> stopwords" where
  "Stopwords_from stopwordsOrTerms =
     (case stopwordsOrTerms of
        None \<Rightarrow> Stopwords_new []
      | Some (Instance s) \<Rightarrow> s
      | Some (Terms terms) \<Rightarrow> Stopwords_new terms)"

section \<open>Corpus\<close>

record corpus_options =
  opt_stopwords :: "stopwords_or_terms option"
  opt_K1 :: "real option"
  opt_b :: "real option"

record corpus =
  c_stopwords :: stopwords
  c_K1 :: real
  c_b :: real
  c_documents :: "(string, document) js_map"

text \<open>The constructor: absent options take the defaults \<open>[]\<close>, \<open>2.0\<close> and \<open>0.75\<close>.\<close>

definition Corpus_new :: "(string \<times> document) list \<Rightarrow> corpus_options \<Rightarrow> corpus" where
  "Corpus_new documents options =
     \<lparr> c_stopwords = Stopwords_from (opt_stopwords options),
       c_K1 = (case opt_K1 options of None \<Rightarrow> 2 | Some k \<Rightarrow> k),
       c_b = (case opt_b options of None \<Rightarrow> 3 / 4 | Some x \<Rightarrow> x),
       c_documents = Map_new documents \<rparr>"

text \<open>\<open>Corpus.fromKvps\<close>: every value goes through \<open>TextDocument.from\<close>; the first
  exception ends the construction.\<close>

fun toKvps :: "(string \<times> contents) list \<Rightarrow> error + (string \<times> document) list" where
  "toKvps [] = Inr []"
| "toKvps ((ident, contents) # kvps) =
     (case TextDocument_from contents of
        Inl e \<Rightarrow> Inl e
      | Inr d \<Rightarrow> (case toKvps kvps of Inl e \<Rightarrow> Inl e | Inr ds \<Rightarrow> Inr ((ident, d) # ds)))"

definition fromKvps :: "(string \<times> contents) list \<Rightarrow> corpus_options \<Rightarrow> error + corpus" where
  "fromKvps documentKvps options =
     (case toKvps documentKvps of Inl e \<Rightarrow> Inl e | Inr ds \<Rightarrow> Inr (Corpus_new ds options))"

text \<open>\<open>Corpus.from\<close>: the two arrays are paired by position after the length check.\<close>

definition Corpus_from :: "string list \<Rightarrow> string list \<Rightarrow> corpus_options \<Rightarrow> error + corpus" where
  "Corpus_from names texts options =
     (if length names \<noteq> length texts
      then Inl (Error ''expected `names` to have same length as `texts`'')
      else fromKvps (zip names (map Text texts)) options)"

text \<open>\<open>Corpus._calculateCollectionFrequencies\<close>.\<close>

definition count_term :: "string \<Rightarrow> (string, nat) js_map \<Rightarrow> (string, nat) js_map" where
  "count_term term cfs =
     (if Map_has cfs term
      then (case Map_get cfs term of Some n \<Rightarrow> Map_set cfs term (n + 1) | None \<Rightarrow> cfs)
      else Map_set cfs term 1)"

definition count_document :: "stopwords \<Rightarrow> document \<Rightarrow> (string, nat) js_map \<Rightarrow> (string, nat) js_map" where
  "count_document sw d cfs =
     fold count_term (filter (\<lambda>t. \<not> Stopwords_includes sw t) (getUniqueTerms d)) cfs"

definition calculateCollectionFrequencies :: "corpus \<Rightarrow> (string, nat) js_map" where
  "calculateCollectionFrequencies c =
     fold (count_document (c_stopwords c)) (Map_values (c_documents c)) []"

definition getTerms :: "corpus \<Rightarrow> string list" where
  "getTerms c = Map_keys (calculateCollectionFrequencies c)"

definition getCollectionFrequency :: "corpus \<Rightarrow> string \<Rightarrow> nat" where
  "getCollectionFrequency c term =
     (case Map_get (calculateCollectionFrequencies c) term of None \<Rightarrow> 0 | Some cf \<Rightarrow> cf)"

definition getDocument :: "corpus \<Rightarrow> string \<Rightarrow> document option" where
  "getDocument c identifier = Map_get (c_documents c) identifier"

definition getDocumentIdentifiers :: "corpus \<Rightarrow> string list" where
  "getDocumentIdentifiers c = Map_keys (c_documents c)"

text \<open>\<open>Corpus._calculateCollectionFrequencyWeights\<close>, with \<open>N\<close> the size of the
  document map.\<close>

definition calculateCollectionFrequencyWeights :: "corpus \<Rightarrow> (string, real) js_map" where
  "calculateCollectionFrequencyWeights c =
     (let N = Map_size (c_documents c) in
        fold (\<lambda>entry cfw. Map_set cfw (fst entry) (ln (real N + 1) - ln (real (snd entry))))
          (calculateCollectionFrequencies c) [])"

text \<open>\<open>Corpus.getCollectionFrequencyWeight\<close>: \<open>None\<close> is the \<open>null\<close> of a term that has
  no weight.\<close>

definition getCollectionFrequencyWeight :: "corpus \<Rightarrow> string \<Rightarrow> real option" where
  "getCollectionFrequencyWeight c term = Map_get (calculateCollectionFrequencyWeights c) term"

text \<open>\<open>Corpus._calculateDocumentVectors\<close>.\<close>

definition totalLength :: "corpus \<Rightarrow> nat" where
  "totalLength c = fold (\<lambda>x a. a + x) (map getLength (Map_values (c_documents c))) 0"

definition avgLength :: "corpus \<Rightarrow> real" where
  "avgLength c = real (totalLength c) / real (Map_size (c_documents c))"

definition combinedWeight :: "real \<Rightarrow> real \<Rightarrow> real \<Rightarrow> real \<Rightarrow> nat \<Rightarrow> real" where
  "combinedWeight k1 b' ndl idf tf =
     (if tf \<noteq> 0 then (idf * real tf * (k1 + 1)) / (k1 * (1 - b' + b' * ndl) + real tf) else 0)"

definition documentVector :: "corpus \<Rightarrow> document \<Rightarrow> (string, real) js_map" where
  "documentVector c d =
     (let ndl = real (getLength d) / avgLength c in
        fold (\<lambda>entry vector.
                Map_set vector (fst entry)
                  (combinedWeight (c_K1 c) (c_b c) ndl (snd entry) (getTermFrequency d (fst entry))))
          (calculateCollectionFrequencyWeights c) [])"

definition calculateDocumentVectors :: "corpus \<Rightarrow> (string, (string, real) js_map) js_map" where
  "calculateDocumentVectors c =
     fold (\<lambda>entry dvs. Map_set dvs (fst entry) (documentVector c (snd entry)))
       (c_documents c) []"

text \<open>\<open>Corpus.getDocumentVector\<close>: \<open>None\<close> is the \<open>undefined\<close> of an unknown
  identifier.\<close>

definition getDocumentVector :: "corpus \<Rightarrow> string \<Rightarrow> (string, real) js_map option" where
  "getDocumentVector c identifier = Map_get (calculateDocumentVectors c) identifier"

text \<open>
  \<open>Corpus.getTopTermsForDocument\<close>; \<open>maxTerms\<close> is a count (the default of the source
  is 30).
\<close>

definition getTopTermsForDocument :: "corpus \<Rightarrow> string \<Rightarrow> nat \<Rightarrow> (string \<times> real) list" where
  "getTopTermsForDocument c identifier maxTerms =
     (case getDocumentVector c identifier of
        None \<Rightarrow> []
      | Some vector \<Rightarrow> take maxTerms (sort_descending (filter (\<lambda>d. snd d > 0) vector)))"

text \<open>
  \<open>Corpus.getCommonTerms\<close> (the default of \<open>maxTerms\<close> is 10). Reading \<open>.entries\<close> or
  \<open>.get\<close> of an \<open>undefined\<close> vector raises a \<open>TypeError\<close>; the callback that reads
  \<open>vector2\<close> only runs when \<open>vector1\<close> has an entry. A product with \<open>undefined\<close> is
  \<open>NaN\<close>, which the filter \<open>d[1] > 0\<close> drops.
\<close>

definition commonScore :: "(string, real) js_map \<Rightarrow> string \<times> real \<Rightarrow> string \<times> real option" where
  "commonScore vector2 entry =
     (fst entry, (case Map_get vector2 (fst entry) of None \<Rightarrow> None | Some w \<Rightarrow> Some (snd entry * w)))"

definition positiveScores :: "(string \<times> real option) list \<Rightarrow> (string \<times> real) list" where
  "positiveScores ds =
     List.map_filter
       (\<lambda>d. case snd d of None \<Rightarrow> None | Some s \<Rightarrow> if s > 0 then Some (fst d, s) else None) ds"

definition getCommonTerms :: "corpus \<Rightarrow> string \<Rightarrow> string \<Rightarrow> nat \<Rightarrow> error + (string \<times> real) list" where
  "getCommonTerms c identifier1 identifier2 maxTerms =
     (case getDocumentVector c identifier1 of
        None \<Rightarrow> Inl TypeError
      | Some vector1 \<Rightarrow>
          (case getDocumentVector c identifier2 of
             None \<Rightarrow> (if vector1 = [] then Inr [] else Inl TypeError)
           | Some vector2 \<Rightarrow>
               Inr (take maxTerms
                 (sort_descending (positiveScores (map (commonScore vector2) vector1))))))"

text \<open>\<open>Corpus._queryToUniqueTerms\<close> takes any value.\<close>

datatype js_value = JSString string | JSNumber real | JSBoolean bool | JSNull | JSUndefined

definition queryToUniqueTerms :: "js_value \<Rightarrow> error + string list" where
  "queryToUniqueTerms query =
     (case query of
        JSString s \<Rightarrow>
          (if length s > 0
           then (case TextDocument_new s of Inl e \<Rightarrow> Inl e | Inr d \<Rightarrow> Inr (getUniqueTerms d))
           else Inr [])
      | _ \<Rightarrow> Inr [])"

text \<open>\<open>Corpus.getResultsForQuery\<close>: the score of a document adds the weights that are
  truthy (defined and not zero).\<close>

definition queryScore :: "(string, real) js_map \<Rightarrow> string list \<Rightarrow> real" where
  "queryScore vector terms =
     fold (\<lambda>t score.
             case Map_get vector t of
               None \<Rightarrow> score
             | Some weight \<Rightarrow> if weight \<noteq> 0 then score + weight else score)
       terms 0"

fun documentScores :: "corpus \<Rightarrow> string list \<Rightarrow> string list \<Rightarrow> error + (string \<times> real) list" where
  "documentScores c terms [] = Inr []"
| "documentScores c terms (d # ds) =
     (case getDocumentVector c d of
        None \<Rightarrow> Inl TypeError
      | Some vector \<Rightarrow>
          (case documentScores c terms ds of
             Inl e \<Rightarrow> Inl e
           | Inr scores \<Rightarrow> Inr ((d, queryScore vector terms) # scores)))"

definition getResultsForQuery :: "corpus \<Rightarrow> js_value \<Rightarrow> error + (string \<times> real) list" where
  "getResultsForQuery c query =
     (case queryToUniqueTerms query of
        Inl e \<Rightarrow> Inl e
      | Inr terms \<Rightarrow>
          (if length terms = 0 then Inr []
           else (case documentScores c terms (getDocumentIdentifiers c) of
                   Inl e \<Rightarrow> Inl e
                 | Inr scores \<Rightarrow> Inr (sort_descending (filter (\<lambda>d. snd d > 0) scores)))))"

definition getStopwords :: "corpus \<Rightarrow> stopwords" where
  "getStopwords c = c_stopwords c"

text \<open>
  The weight that the vector of a document gives to a term, read as 0 where the vector
  has no entry for the term (or the identifier has no vector): the quantity the
  operations above add and multiply.
\<close>

definition weightOf :: "(string, real) js_map \<Rightarrow> string \<Rightarrow> real" where
  "weightOf vector t = (case Map_get vector t of None \<Rightarrow> 0 | Some w \<Rightarrow> w)"

definition documentWeight :: "corpus \<Rightarrow> string \<Rightarrow> string \<Rightarrow> real" where
  "documentWeight c identifier t =
     (case getDocumentVector c identifier of None \<Rightarrow> 0 | Some vector \<Rightarrow> weightOf vector t)"

section \<open>Similarity\<close>

text \<open>
  Modelled from the spec: the class \<open>Similarity\<close>, whose source file is not among the
  sources (only its test and its description are). The terms to which either vector
  gives a weight that is not zero, each once.
\<close>

definition nonZeroTerms :: "(string, real) js_map \<Rightarrow> (string, real) js_map \<Rightarrow> string list" where
  "nonZeroTerms A B =
     remdups (filter (\<lambda>t. weightOf A t \<noteq> 0 \<or> weightOf B t \<noteq> 0) (Map_keys A @ Map_keys B))"

text \<open>
  Modelled from the spec: \<open>cosineSimilarity(vectorA, vectorB)\<close> of the class
  \<open>Similarity\<close> (source file absent): \<open>dot(A,B) / (norm A * norm B)\<close> over the terms
  either vector gives a non-zero weight, and 0 when either norm is 0.
\<close>

definition cosineSimilarity :: "(string, real) js_map \<Rightarrow> (string, real) js_map \<Rightarrow> real" where
  "cosineSimilarity A B =
     (let ts = nonZeroTerms A B;
          dot = (\<Sum>t\<leftarrow>ts. weightOf A t * weightOf B t);
          normA = sqrt (\<Sum>t\<leftarrow>ts. weightOf A t * weightOf A t);
          normB = sqrt (\<Sum>t\<leftarrow>ts. weightOf B t * weightOf B t)
      in if normA = 0 \<or> normB = 0 then 0 else dot / (normA * normB))"

text \<open>
  Modelled from the spec: the vector that \<open>distanceMatrix\<close> of the class \<open>Similarity\<close>
  (source file absent) reads for an identifier of the corpus.
\<close>

definition vectorOf :: "corpus \<Rightarrow> string \<Rightarrow> (string, real) js_map" where
  "vectorOf c identifier = (case getDocumentVector c identifier of None \<Rightarrow> [] | Some v \<Rightarrow> v)"

text \<open>
  Modelled from the spec: \<open>distanceMatrix()\<close> of the class \<open>Similarity\<close> (source file
  absent): the identifiers of the corpus in their order, and a square matrix over them
  with a zero diagonal by construction and
  \<open>matrix[i][j] = 1 - cosineSimilarity(vector(identifiers[i]), vector(identifiers[j]))\<close>
  off the diagonal.
\<close>

definition distanceMatrix :: "corpus \<Rightarrow> string list \<times> real list list" where
  "distanceMatrix c =
     (let identifiers = getDocumentIdentifiers c;
          n = length identifiers
      in (identifiers,
          map (\<lambda>i. map (\<lambda>j. if i = j then 0
                              else 1 - cosineSimilarity (vectorOf c (identifiers ! i))
                                         (vectorOf c (identifiers ! j)))
                     [0..<n])
            [0..<n]))"

section \<open>Example corpora\<close>

definition noOptions :: corpus_options where
  "noOptions = \<lparr> opt_stopwords = None, opt_K1 = None, opt_b = None \<rparr>"

definition exampleOptions :: corpus_options where
  "exampleOptions = \<lparr> opt_stopwords = Some (Terms [''is'']), opt_K1 = None, opt_b = None \<rparr>"

definition exampleCorpus :: corpus where
  "exampleCorpus =
     Corpus_new
       [(''d1'', Document [''ab'', ''cd'', ''ab'']), (''d2'', Document [''cd'', ''is''])]
       exampleOptions"

section \<open>Facts about the map operations\<close>

lemma map_of_Map_set: "map_of (Map_set m k v) = (map_of m)(k \<mapsto> v)"
  by (induction m) (auto simp: fun_eq_iff)

lemma keys_Map_set:
  "map fst (Map_set m k v) = (if k \<in> fst ` set m then map fst m else map fst m @ [k])"
  by (induction m) (force split: if_splits)+

lemma distinct_Map_set: "distinct (map fst m) \<Longrightarrow> distinct (map fst (Map_set m k v))"
  by (simp add: keys_Map_set)

lemma Map_set_fresh: "k \<notin> fst ` set m \<Longrightarrow> Map_set m k v = m @ [(k, v)]"
  by (induction m) auto

lemma sum_Map_set_present:
  "distinct (map fst m) \<Longrightarrow> map_of m k = Some n \<Longrightarrow>
   sum_list (map snd (Map_set m k (Suc n))) = Suc (sum_list (map snd m))"
proof (induction m)
  case Nil
  then show ?case by simp
next
  case (Cons a m)
  then show ?case by (cases a) (auto split: if_splits)
qed

lemma map_of_None_fresh: "map_of m k = None \<Longrightarrow> k \<notin> fst ` set m"
  by (simp add: map_of_eq_None_iff)

lemma count_word_distinct: "distinct (map fst m) \<Longrightarrow> distinct (map fst (count_word w m))"
  by (simp add: count_word_def Map_get_def distinct_Map_set split: option.splits)

lemma count_word_sum:
  "distinct (map fst m) \<Longrightarrow> sum_list (map snd (count_word w m)) = Suc (sum_list (map snd m))"
  by (auto simp: count_word_def Map_get_def sum_Map_set_present Map_set_fresh
      dest: map_of_None_fresh split: option.splits)

lemma count_word_lookup:
  "(case map_of (count_word w m) t of None \<Rightarrow> 0 | Some n \<Rightarrow> n) =
   (case map_of m t of None \<Rightarrow> 0 | Some n \<Rightarrow> n) + (if w = t then 1 else 0)"
  by (auto simp: count_word_def Map_get_def map_of_Map_set split: option.splits)

lemma set_keys_Map_set: "fst ` set (Map_set m k v) = insert k (fst ` set m)"
proof -
  have "set (map fst (Map_set m k v)) = insert k (set (map fst m))"
    unfolding keys_Map_set by (cases "k \<in> fst ` set m") (simp_all add: insert_absorb)
  then show ?thesis by simp
qed

lemma count_word_keys: "fst ` set (count_word w m) = insert w (fst ` set m)"
  by (simp add: count_word_def set_keys_Map_set split: option.splits)

lemma fold_count_word_distinct:
  "distinct (map fst m) \<Longrightarrow> distinct (map fst (fold count_word ws m))"
  by (induction ws arbitrary: m) (simp_all add: count_word_distinct)

lemma fold_count_word_sum:
  "distinct (map fst m) \<Longrightarrow>
   sum_list (map snd (fold count_word ws m)) = sum_list (map snd m) + length ws"
  by (induction ws arbitrary: m) (simp_all add: count_word_distinct count_word_sum)

lemma fold_count_word_lookup:
  "(case map_of (fold count_word ws m) t of None \<Rightarrow> 0 | Some n \<Rightarrow> n) =
   (case map_of m t of None \<Rightarrow> 0 | Some n \<Rightarrow> n) + count_list ws t"
  by (induction ws arbitrary: m) (simp_all add: count_word_lookup)

lemma fold_count_word_keys: "fst ` set (fold count_word ws m) = fst ` set m \<union> set ws"
  by (induction ws arbitrary: m) (simp_all add: count_word_keys)

lemma sum_lookup_distinct:
  "distinct (map fst m) \<Longrightarrow>
   (\<Sum>t\<leftarrow>map fst m. (case map_of m t of None \<Rightarrow> 0 | Some n \<Rightarrow> n)) = sum_list (map snd (m :: ('k \<times> nat) list))"
proof (induction m)
  case Nil
  then show ?case by simp
next
  case (Cons a m)
  have "(\<Sum>t\<leftarrow>map fst m. (case map_of (a # m) t of None \<Rightarrow> 0 | Some n \<Rightarrow> n)) =
        (\<Sum>t\<leftarrow>map fst m. (case map_of m t of None \<Rightarrow> 0 | Some n \<Rightarrow> n))"
  proof (intro arg_cong[of _ _ sum_list] map_cong refl)
    fix x assume "x \<in> set (map fst m)"
    with Cons.prems have "x \<noteq> fst a" by force
    then show "(case map_of (a # m) x of None \<Rightarrow> 0 | Some n \<Rightarrow> n) =
               (case map_of m x of None \<Rightarrow> 0 | Some n \<Rightarrow> n)"
      by (cases a) simp
  qed
  with Cons show ?case by (cases a) simp
qed

lemma getTermFrequency_count: "getTermFrequency d t = count_list (words d) t"
  using fold_count_word_lookup[of "words d" "[]" t]
  by (simp add: getTermFrequency_def calculateTermFrequencies_def Map_get_def)

lemma set_getUniqueTerms: "set (getUniqueTerms d) = set (words d)"
  using fold_count_word_keys[of "words d" "[]"]
  by (simp add: getUniqueTerms_def calculateTermFrequencies_def Map_keys_def)

lemma distinct_getUniqueTerms: "distinct (getUniqueTerms d)"
  by (simp add: getUniqueTerms_def calculateTermFrequencies_def Map_keys_def fold_count_word_distinct)

section \<open>Document: term frequencies\<close>

text \<open>
  Claim C9. For every document, the term frequencies of its unique terms add up to its
  length, the number of its tokens with duplicates and stopwords.
\<close>

theorem term_frequencies_sum_to_length:
  "(\<Sum>t\<leftarrow>getUniqueTerms d. getTermFrequency d t) = getLength d"
proof -
  let ?m = "calculateTermFrequencies d"
  have dist: "distinct (map fst ?m)"
    by (simp add: calculateTermFrequencies_def fold_count_word_distinct)
  have "(\<Sum>t\<leftarrow>getUniqueTerms d. getTermFrequency d t) = sum_list (map snd ?m)"
    using sum_lookup_distinct[OF dist]
    by (simp add: getUniqueTerms_def getTermFrequency_def Map_keys_def Map_get_def)
  also have "\<dots> = length (words d)"
    using fold_count_word_sum[of "[]" "words d"] by (simp add: calculateTermFrequencies_def)
  finally show ?thesis by (simp add: getLength_def)
qed

theorem term_frequencies_sum_to_length_witness:
  "(\<Sum>t\<leftarrow>getUniqueTerms (Document [''ab'', ''cd'', ''ab'']).
      getTermFrequency (Document [''ab'', ''cd'', ''ab'']) t) = 3"
  using term_frequencies_sum_to_length [of "Document [''ab'', ''cd'', ''ab'']"]
  by (simp add: getLength_def)

section \<open>TextDocument and the builders of a corpus\<close>

lemma letter_runs_Nil_iff:
  "letter_runs acc cs = [] \<longleftrightarrow> acc = [] \<and> (\<forall>c\<in>set cs. \<not> isLetter c)"
  by (induction cs arbitrary: acc) auto

lemma match_letters_None_iff:
  "match_letters text = None \<longleftrightarrow> (\<forall>c\<in>set text. \<not> isLetter c)"
  using letter_runs_Nil_iff[of "[]" "text"]
  by (auto simp: match_letters_def split: list.splits)

lemma match_letters_Some:
  "\<exists>c\<in>set text. isLetter c \<Longrightarrow> match_letters text = Some (letter_runs [] text)"
  using letter_runs_Nil_iff[of "[]" "text"]
  by (auto simp: match_letters_def split: list.splits)

lemma TextDocument_new_letterless:
  "\<forall>c\<in>set text. \<not> isLetter c \<Longrightarrow> TextDocument_new text = Inl TypeError"
  using match_letters_None_iff[of "text"] by (simp add: TextDocument_new_def)

lemma TextDocument_new_letters:
  "\<exists>c\<in>set text. isLetter c \<Longrightarrow>
   TextDocument_new text =
     Inr (TextDocument (map toLowerCase (filter keep_word (letter_runs [] text))) text)"
  by (simp add: TextDocument_new_def match_letters_Some)

lemma TextDocument_from_error: "TextDocument_from x = Inl e \<Longrightarrow> e = TypeError"
  by (auto simp: TextDocument_from_def TextDocument_new_def split: contents.splits option.splits)

lemma toKvps_error: "toKvps kvps = Inl e \<Longrightarrow> e = TypeError"
  by (induction kvps arbitrary: e rule: toKvps.induct)
     (auto split: sum.splits dest: TextDocument_from_error)

lemma toKvps_letterless:
  "(ident, Text text) \<in> set kvps \<Longrightarrow> \<forall>c\<in>set text. \<not> isLetter c \<Longrightarrow>
   toKvps kvps = Inl TypeError"
proof (induction kvps rule: toKvps.induct)
  case 1
  then show ?case by simp
next
  case (2 ident' contents kvps)
  show ?case
  proof (cases "TextDocument_from contents")
    case (Inl e)
    then show ?thesis using TextDocument_from_error[OF Inl] by simp
  next
    case (Inr d)
    with 2 have "(ident, Text text) \<in> set kvps"
      by (auto simp: TextDocument_from_def TextDocument_new_letterless)
    with 2 Inr show ?thesis by simp
  qed
qed

lemma toKvps_texts:
  "length names = length texts \<Longrightarrow> \<forall>text\<in>set texts. \<exists>ch\<in>set text. isLetter ch \<Longrightarrow>
   toKvps (zip names (map Text texts)) =
     Inr (zip names
       (map (\<lambda>text. TextDocument (map toLowerCase (filter keep_word (letter_runs [] text))) text)
          texts))"
proof (induction names texts rule: list_induct2)
  case Nil
  then show ?case by simp
next
  case (Cons n ns t ts)
  then show ?case by (simp add: TextDocument_from_def TextDocument_new_letters)
qed

lemma fold_Map_set_append:
  "distinct (map fst xs) \<Longrightarrow> fst ` set xs \<inter> fst ` set acc = {} \<Longrightarrow>
   fold (\<lambda>e m. Map_set m (fst e) (f e)) xs acc = acc @ map (\<lambda>e. (fst e, f e)) xs"
proof (induction xs arbitrary: acc)
  case Nil
  then show ?case by simp
next
  case (Cons x xs)
  have fresh: "fst x \<notin> fst ` set acc" using Cons.prems(2) by auto
  have "fst ` set xs \<inter> fst ` set (acc @ [(fst x, f x)]) = {}"
    using Cons.prems by auto
  with Cons show ?case by (simp add: Map_set_fresh[OF fresh])
qed

lemma fold_Map_set_distinct:
  "distinct (map fst xs) \<Longrightarrow>
   fold (\<lambda>e m. Map_set m (fst e) (f e)) xs [] = map (\<lambda>e. (fst e, f e)) xs"
  using fold_Map_set_append[of xs "[]" f] by simp

lemma Map_new_distinct_keys: "distinct (map fst kvps) \<Longrightarrow> Map_new kvps = kvps"
  using fold_Map_set_distinct[of kvps snd] by (simp add: Map_new_def)

text \<open>
  Claim C10. A text without any letter makes the match of the tokenizer \<open>null\<close>, so
  constructing a \<open>TextDocument\<close> from it raises a \<open>TypeError\<close>, and so does building
  a corpus with \<open>Corpus.fromKvps\<close>, or with \<open>Corpus.from\<close> on arrays of equal length,
  when one of the texts is such a text.
\<close>

theorem letterless_text_raises_TypeError:
  "\<forall>c\<in>set text. \<not> isLetter c \<Longrightarrow>
   TextDocument_new text = Inl TypeError \<and>
   (\<forall>kvps ident opts. (ident, Text text) \<in> set kvps \<longrightarrow> fromKvps kvps opts = Inl TypeError) \<and>
   (\<forall>names texts opts. length names = length texts \<and> text \<in> set texts \<longrightarrow>
      Corpus_from names texts opts = Inl TypeError)"
proof (intro conjI allI impI)
  assume h: "\<forall>c\<in>set text. \<not> isLetter c"
  show "TextDocument_new text = Inl TypeError" by (rule TextDocument_new_letterless[OF h])
  show "fromKvps kvps opts = Inl TypeError" if "(ident, Text text) \<in> set kvps" for kvps ident opts
    using toKvps_letterless[OF that h] by (simp add: fromKvps_def)
  show "Corpus_from names texts opts = Inl TypeError"
    if a: "length names = length texts \<and> text \<in> set texts" for names texts opts
  proof -
    from a obtain i where i: "i < length texts" "texts ! i = text"
      by (auto simp: in_set_conv_nth)
    with a have "(names ! i, Text text) \<in> set (zip names (map Text texts))"
      by (auto simp: set_zip)
    from toKvps_letterless[OF this h] a show ?thesis
      by (simp add: Corpus_from_def fromKvps_def)
  qed
qed

theorem letterless_text_raises_TypeError_witness:
  "TextDocument_new ''12, 3.'' = Inl TypeError \<and>
   fromKvps [(''a'', Text ''ok''), (''b'', Text ''12, 3.'')] noOptions = Inl TypeError \<and>
   Corpus_from [''a'', ''b''] [''ok'', ''12, 3.''] noOptions = Inl TypeError"
proof -
  have h: "\<forall>c\<in>set ''12, 3.''. \<not> isLetter c" by (simp add: isLetter_def)
  note t = letterless_text_raises_TypeError[OF h]
  from t have 1: "TextDocument_new ''12, 3.'' = Inl TypeError" by blast
  from t have 2: "fromKvps [(''a'', Text ''ok''), (''b'', Text ''12, 3.'')] noOptions = Inl TypeError"
    by simp
  from t have 3: "Corpus_from [''a'', ''b''] [''ok'', ''12, 3.''] noOptions = Inl TypeError"
    by simp
  from 1 2 3 show ?thesis by blast
qed

lemma TextDocument_new_getText: "TextDocument_new t = Inr d \<Longrightarrow> getText d = t"
  by (auto simp: TextDocument_new_def split: option.splits)

lemma toKvps_documents:
  "length names = length texts \<Longrightarrow> map TextDocument_new texts = map Inr ds \<Longrightarrow>
   toKvps (zip names (map Text texts)) = Inr (zip names ds)"
proof (induction names texts arbitrary: ds rule: list_induct2)
  case Nil
  then show ?case by simp
next
  case (Cons n ns t ts)
  from Cons.prems obtain d ds' where ds: "ds = d # ds'"
    and d: "TextDocument_new t = Inr d" and rest: "map TextDocument_new ts = map Inr ds'"
    by (cases ds) auto
  from Cons.IH[OF rest] d show ?case by (simp add: ds TextDocument_from_def)
qed

text \<open>
  Claim C3, as amended. \<open>Corpus.from\<close> on arrays of unequal length throws the error of
  its length check and builds no corpus. On arrays of equal length with pairwise
  distinct identifiers, whenever the \<open>TextDocument\<close> constructor returns a document for
  each text, the construction succeeds and the document map holds exactly the pairs of
  an identifier and the \<open>TextDocument\<close> of the text at the same position, in the order of
  the arrays.
\<close>

theorem Corpus_from_parallel_arrays:
  "(length names \<noteq> length texts \<longrightarrow>
      Corpus_from names texts opts =
        Inl (Error ''expected `names` to have same length as `texts`'')) \<and>
   (length names = length texts \<and> distinct names \<and>
    map TextDocument_new texts = map Inr ds \<longrightarrow>
      (\<exists>c. Corpus_from names texts opts = Inr c \<and>
           c_documents c = zip names ds \<and>
           getDocumentIdentifiers c = names \<and>
           (\<forall>i<length names.
              getDocument c (names ! i) = Some (ds ! i) \<and>
              TextDocument_new (texts ! i) = Inr (ds ! i) \<and>
              getText (ds ! i) = texts ! i)))"
proof (intro conjI impI)
  assume "length names \<noteq> length texts"
  then show "Corpus_from names texts opts =
        Inl (Error ''expected `names` to have same length as `texts`'')"
    by (simp add: Corpus_from_def)
next
  assume a: "length names = length texts \<and> distinct names \<and>
    map TextDocument_new texts = map Inr ds"
  then have len: "length names = length texts" and dist: "distinct names"
    and docs: "map TextDocument_new texts = map Inr ds" by auto
  have lds: "length ds = length texts" using arg_cong[OF docs, of length] by simp
  have k: "toKvps (zip names (map Text texts)) = Inr (zip names ds)"
    by (rule toKvps_documents[OF len docs])
  have keys: "map fst (zip names ds) = names" using len lds by simp
  have m: "Map_new (zip names ds) = zip names ds"
    by (rule Map_new_distinct_keys) (simp add: keys dist)
  let ?c = "Corpus_new (zip names ds) opts"
  have 1: "Corpus_from names texts opts = Inr ?c"
    using len k by (simp add: Corpus_from_def fromKvps_def)
  have 2: "c_documents ?c = zip names ds" by (simp add: Corpus_new_def m)
  have 3: "getDocumentIdentifiers ?c = names"
    by (simp add: getDocumentIdentifiers_def Map_keys_def 2 keys)
  have 4: "getDocument ?c (names ! i) = Some (ds ! i) \<and>
           TextDocument_new (texts ! i) = Inr (ds ! i) \<and> getText (ds ! i) = texts ! i"
    if i: "i < length names" for i
  proof -
    have "map_of (zip names ds) (names ! i) = Some (ds ! i)"
      using i len lds dist by (intro map_of_zip_nth) auto
    then have g: "getDocument ?c (names ! i) = Some (ds ! i)"
      by (simp add: getDocument_def Map_get_def 2)
    have "map TextDocument_new texts ! i = map Inr ds ! i" by (simp only: docs)
    then have t: "TextDocument_new (texts ! i) = Inr (ds ! i)"
      using i len lds by simp
    from g t TextDocument_new_getText[OF t] show ?thesis by simp
  qed
  show "\<exists>c. Corpus_from names texts opts = Inr c \<and> c_documents c = zip names ds \<and>
           getDocumentIdentifiers c = names \<and>
           (\<forall>i<length names.
              getDocument c (names ! i) = Some (ds ! i) \<and>
              TextDocument_new (texts ! i) = Inr (ds ! i) \<and>
              getText (ds ! i) = texts ! i)"
    using 1 2 3 4 by (intro exI[of _ ?c]) auto
qed

text \<open>
  Equal lengths do not give all pairs: a repeated identifier is set twice in the
  document map, which keeps one document for it, the last.
\<close>

theorem Corpus_from_parallel_arrays_counterexample:
  "Corpus_from [''a'', ''a''] [''xx'', ''yy''] noOptions =
     Inr (Corpus_new [(''a'', TextDocument [''yy''] ''yy'')] noOptions) \<and>
   getDocumentIdentifiers (Corpus_new [(''a'', TextDocument [''yy''] ''yy'')] noOptions) = [''a'']"
  by (simp add: Corpus_from_def fromKvps_def TextDocument_from_def TextDocument_new_def
      match_letters_def isLetter_def keep_word_def isDigit_def toLowerCase_def
      toLowerCase_char_def Corpus_new_def Map_new_def getDocumentIdentifiers_def Map_keys_def)

theorem Corpus_from_parallel_arrays_witness:
  "Corpus_from [''a''] [] noOptions =
     Inl (Error ''expected `names` to have same length as `texts`'') \<and>
   (\<exists>c. Corpus_from [''a'', ''b''] [''Ab c 1x'', ''EF, gh!''] noOptions = Inr c \<and>
        c_documents c =
          [(''a'', TextDocument [''ab''] ''Ab c 1x''),
           (''b'', TextDocument [''ef'', ''gh''] ''EF, gh!'')] \<and>
        getDocumentIdentifiers c = [''a'', ''b''])"
proof -
  have 1: "Corpus_from [''a''] [] noOptions =
     Inl (Error ''expected `names` to have same length as `texts`'')"
    using Corpus_from_parallel_arrays[of "[''a'']" "[]" noOptions] by simp
  have h: "length [''a'', ''b''] = length [''Ab c 1x'', ''EF, gh!''] \<and> distinct [''a'', ''b''] \<and>
    map TextDocument_new [''Ab c 1x'', ''EF, gh!''] =
      map Inr [TextDocument [''ab''] ''Ab c 1x'', TextDocument [''ef'', ''gh''] ''EF, gh!'']"
    by (simp add: TextDocument_new_def match_letters_def isLetter_def keep_word_def isDigit_def
        toLowerCase_def toLowerCase_char_def char_of_def bit_0)
  from Corpus_from_parallel_arrays[of "[''a'', ''b'']" "[''Ab c 1x'', ''EF, gh!'']" noOptions
      "[TextDocument [''ab''] ''Ab c 1x'', TextDocument [''ef'', ''gh''] ''EF, gh!'']",
      THEN conjunct2, rule_format, OF h]
  have 2: "\<exists>c. Corpus_from [''a'', ''b''] [''Ab c 1x'', ''EF, gh!''] noOptions = Inr c \<and>
        c_documents c =
          [(''a'', TextDocument [''ab''] ''Ab c 1x''),
           (''b'', TextDocument [''ef'', ''gh''] ''EF, gh!'')] \<and>
        getDocumentIdentifiers c = [''a'', ''b'']"
    by auto
  from 1 2 show ?thesis by blast
qed

section \<open>Collection frequencies\<close>

lemma count_term_eq_count_word: "count_term t m = count_word t m"
  by (simp add: count_term_def count_word_def Map_has_def Map_get_def split: option.splits)

lemma count_list_distinct: "distinct xs \<Longrightarrow> count_list xs x = (if x \<in> set xs then 1 else 0)"
  by (induction xs) auto

lemma count_document_fold:
  "count_document sw d m =
     fold count_word (filter (\<lambda>t. \<not> Stopwords_includes sw t) (getUniqueTerms d)) m"
proof -
  have "count_term = count_word" by (intro ext) (rule count_term_eq_count_word)
  then show ?thesis by (simp add: count_document_def)
qed

lemma count_document_distinct:
  "distinct (map fst m) \<Longrightarrow> distinct (map fst (count_document sw d m))"
  by (simp add: count_document_fold fold_count_word_distinct)

lemma count_document_lookup:
  "(case map_of (count_document sw d m) t of None \<Rightarrow> 0 | Some n \<Rightarrow> n) =
   (case map_of m t of None \<Rightarrow> 0 | Some n \<Rightarrow> n) +
   (if t \<in> set (words d) \<and> \<not> Stopwords_includes sw t then 1 else 0)"
  by (simp add: count_document_fold fold_count_word_lookup count_list_distinct
      distinct_getUniqueTerms set_getUniqueTerms)

lemma count_document_keys:
  "fst ` set (count_document sw d m) =
   fst ` set m \<union> {t \<in> set (words d). \<not> Stopwords_includes sw t}"
  by (auto simp: count_document_fold fold_count_word_keys set_getUniqueTerms)

lemma fold_count_document_distinct:
  "distinct (map fst m) \<Longrightarrow> distinct (map fst (fold (count_document sw) ds m))"
  by (induction ds arbitrary: m) (simp_all add: count_document_distinct)

lemma fold_count_document_lookup:
  "(case map_of (fold (count_document sw) ds m) t of None \<Rightarrow> 0 | Some n \<Rightarrow> n) =
   (case map_of m t of None \<Rightarrow> 0 | Some n \<Rightarrow> n) +
   (if Stopwords_includes sw t then 0 else length (filter (\<lambda>d. t \<in> set (words d)) ds))"
  by (induction ds arbitrary: m) (simp_all add: count_document_lookup)

lemma fold_count_document_keys:
  "fst ` set (fold (count_document sw) ds m) =
   fst ` set m \<union> {t. \<not> Stopwords_includes sw t \<and> (\<exists>d\<in>set ds. t \<in> set (words d))}"
  by (induction ds arbitrary: m) (auto simp: count_document_keys)

lemma distinct_collectionFrequencies: "distinct (map fst (calculateCollectionFrequencies c))"
  by (simp add: calculateCollectionFrequencies_def fold_count_document_distinct)

lemma getCollectionFrequency_count:
  "getCollectionFrequency c t =
     (if Stopwords_includes (c_stopwords c) t then 0
      else length (filter (\<lambda>d. t \<in> set (words d)) (Map_values (c_documents c))))"
  using fold_count_document_lookup[of "c_stopwords c" "Map_values (c_documents c)" "[]" t]
  by (simp add: getCollectionFrequency_def calculateCollectionFrequencies_def Map_get_def)

lemma set_getTerms:
  "set (getTerms c) =
     {t. \<not> Stopwords_includes (c_stopwords c) t \<and>
         (\<exists>d\<in>set (Map_values (c_documents c)). t \<in> set (words d))}"
  using fold_count_document_keys[of "c_stopwords c" "Map_values (c_documents c)" "[]"]
  by (simp add: getTerms_def calculateCollectionFrequencies_def Map_keys_def)

lemma getTerms_iff_frequency: "t \<in> set (getTerms c) \<longleftrightarrow> 1 \<le> getCollectionFrequency c t"
proof -
  have "(\<exists>d\<in>set ds. t \<in> set (words d)) \<longleftrightarrow> 1 \<le> length (filter (\<lambda>d. t \<in> set (words d)) ds)"
    for ds :: "document list"
    by (induction ds) auto
  then show ?thesis by (simp add: set_getTerms getCollectionFrequency_count)
qed

lemma getCollectionFrequency_le_size: "getCollectionFrequency c t \<le> Map_size (c_documents c)"
proof -
  have "length (filter (\<lambda>d. t \<in> set (words d)) (Map_values (c_documents c)))
        \<le> length (Map_values (c_documents c))"
    by (rule length_filter_le)
  then show ?thesis by (simp add: getCollectionFrequency_count Map_values_def Map_size_def)
qed

lemma map_of_collectionFrequencies:
  "map_of (calculateCollectionFrequencies c) t =
     (if t \<in> set (getTerms c) then Some (getCollectionFrequency c t) else None)"
proof (cases "t \<in> set (getTerms c)")
  case True
  then have "t \<in> fst ` set (calculateCollectionFrequencies c)"
    by (simp add: getTerms_def Map_keys_def)
  then obtain n where "map_of (calculateCollectionFrequencies c) t = Some n"
    by (metis domD dom_map_of_conv_image_fst)
  with True show ?thesis by (simp add: getCollectionFrequency_def Map_get_def)
next
  case False
  then have "t \<notin> fst ` set (calculateCollectionFrequencies c)"
    by (simp add: getTerms_def Map_keys_def)
  then have "map_of (calculateCollectionFrequencies c) t = None"
    by (simp add: map_of_eq_None_iff)
  with False show ?thesis by simp
qed

section \<open>Collection frequency weights\<close>

lemma map_of_map_entries:
  "map_of (map (\<lambda>e. (fst e, f e)) xs) k =
     (case map_of xs k of None \<Rightarrow> None | Some v \<Rightarrow> Some (f (k, v)))"
  by (induction xs) auto

lemma collectionFrequencyWeights_map:
  "calculateCollectionFrequencyWeights c =
     map (\<lambda>e. (fst e, ln (real (Map_size (c_documents c)) + 1) - ln (real (snd e))))
       (calculateCollectionFrequencies c)"
  using fold_Map_set_distinct[OF distinct_collectionFrequencies]
  by (simp add: calculateCollectionFrequencyWeights_def Let_def)

lemma keys_collectionFrequencyWeights:
  "map fst (calculateCollectionFrequencyWeights c) = getTerms c"
  by (simp add: collectionFrequencyWeights_map getTerms_def Map_keys_def comp_def)

lemma getCollectionFrequencyWeight_value:
  "getCollectionFrequencyWeight c t =
     (if t \<in> set (getTerms c)
      then Some (ln (real (Map_size (c_documents c)) + 1) - ln (real (getCollectionFrequency c t)))
      else None)"
  by (simp add: getCollectionFrequencyWeight_def Map_get_def collectionFrequencyWeights_map
      map_of_map_entries map_of_collectionFrequencies)

lemma collectionFrequencyWeight_positive:
  assumes "1 \<le> getCollectionFrequency c t"
  shows "0 < ln (real (Map_size (c_documents c)) + 1) - ln (real (getCollectionFrequency c t))"
proof -
  have "real (getCollectionFrequency c t) < real (Map_size (c_documents c)) + 1"
    using getCollectionFrequency_le_size[of c t] by linarith
  moreover have "0 < real (getCollectionFrequency c t)" using assms by simp
  ultimately have "ln (real (getCollectionFrequency c t)) < ln (real (Map_size (c_documents c)) + 1)"
    by simp
  then show ?thesis by simp
qed

section \<open>Document vectors\<close>

lemma documentVector_map:
  "documentVector c d =
     map (\<lambda>e. (fst e,
            combinedWeight (c_K1 c) (c_b c) (real (getLength d) / avgLength c) (snd e)
              (getTermFrequency d (fst e))))
       (calculateCollectionFrequencyWeights c)"
proof -
  have "distinct (map fst (calculateCollectionFrequencyWeights c))"
    using distinct_collectionFrequencies[of c]
    by (simp add: keys_collectionFrequencyWeights getTerms_def Map_keys_def)
  from fold_Map_set_distinct[OF this] show ?thesis
    by (simp add: documentVector_def Let_def)
qed

lemma keys_documentVector: "map fst (documentVector c d) = getTerms c"
  by (simp add: documentVector_map comp_def keys_collectionFrequencyWeights)

lemma map_of_documentVector:
  "map_of (documentVector c d) t =
     (case getCollectionFrequencyWeight c t of
        None \<Rightarrow> None
      | Some idf \<Rightarrow>
          Some (combinedWeight (c_K1 c) (c_b c) (real (getLength d) / avgLength c) idf
            (getTermFrequency d t)))"
  by (simp add: documentVector_map map_of_map_entries getCollectionFrequencyWeight_def Map_get_def
      split: option.splits)

lemma Map_new_distinct: "distinct (map fst (Map_new kvps))"
proof -
  have "distinct (map fst m) \<Longrightarrow> distinct (map fst (fold (\<lambda>kv m. Map_set m (fst kv) (snd kv)) kvps m))"
    for m :: "('a \<times> 'b) list"
    by (induction kvps arbitrary: m) (simp_all add: distinct_Map_set)
  from this[of "[]"] show ?thesis by (simp add: Map_new_def)
qed

lemma documentVectors_map:
  "distinct (map fst (c_documents c)) \<Longrightarrow>
   calculateDocumentVectors c = map (\<lambda>e. (fst e, documentVector c (snd e))) (c_documents c)"
  by (simp add: calculateDocumentVectors_def fold_Map_set_distinct)

lemma getDocumentVector_value:
  "distinct (map fst (c_documents c)) \<Longrightarrow>
   getDocumentVector c identifier =
     (case getDocument c identifier of None \<Rightarrow> None | Some d \<Rightarrow> Some (documentVector c d))"
  by (simp add: getDocumentVector_def getDocument_def Map_get_def documentVectors_map
      map_of_map_entries split: option.splits)

lemma distinct_Corpus_new: "distinct (map fst (c_documents (Corpus_new docs opts)))"
  by (simp add: Corpus_new_def Map_new_distinct)

lemma totalLength_sum:
  "totalLength c = sum_list (map getLength (Map_values (c_documents c)))"
proof -
  have "fold (\<lambda>x a. a + x) xs a = a + sum_list xs" for xs :: "nat list" and a
    by (induction xs arbitrary: a) simp_all
  then show ?thesis by (simp add: totalLength_def)
qed

section \<open>The example corpus\<close>

lemma exampleCorpus_documents:
  "c_documents exampleCorpus =
     [(''d1'', Document [''ab'', ''cd'', ''ab'']), (''d2'', Document [''cd'', ''is''])]"
  by (simp add: exampleCorpus_def Corpus_new_def Map_new_def)

lemma exampleCorpus_stopwords: "c_stopwords exampleCorpus = Stopwords [''is'']"
  by (simp add: exampleCorpus_def Corpus_new_def exampleOptions_def Stopwords_from_def
      Stopwords_new_def Set_new_def Set_add_def)

lemma exampleCorpus_parameters: "c_K1 exampleCorpus = 2 \<and> c_b exampleCorpus = 3 / 4"
  by (simp add: exampleCorpus_def Corpus_new_def exampleOptions_def)

lemma exampleCorpus_frequencies:
  "getCollectionFrequency exampleCorpus ''ab'' = 1"
  "getCollectionFrequency exampleCorpus ''cd'' = 2"
  "getCollectionFrequency exampleCorpus ''is'' = 0"
  by (simp_all add: getCollectionFrequency_count exampleCorpus_documents exampleCorpus_stopwords
      Stopwords_includes_def Map_values_def)

lemma exampleCorpus_identifiers: "getDocumentIdentifiers exampleCorpus = [''d1'', ''d2'']"
  by (simp add: getDocumentIdentifiers_def Map_keys_def exampleCorpus_documents)

section \<open>Corpus: collection frequency weights\<close>

text \<open>
  Claim C2. For a term with collection frequency at least 1, the collection frequency
  weight is \<open>ln (N + 1) - ln (cf)\<close> with \<open>N\<close> the number of documents, and it is
  strictly positive (also when the term is in every document).
\<close>

theorem collection_frequency_weight_formula:
  "1 \<le> getCollectionFrequency c t \<Longrightarrow>
   getCollectionFrequencyWeight c t =
     Some (ln (real (length (getDocumentIdentifiers c)) + 1) -
           ln (real (getCollectionFrequency c t))) \<and>
   0 < ln (real (length (getDocumentIdentifiers c)) + 1) - ln (real (getCollectionFrequency c t))"
  using collectionFrequencyWeight_positive[of c t]
  by (simp add: getCollectionFrequencyWeight_value getTerms_iff_frequency
      getDocumentIdentifiers_def Map_keys_def Map_size_def)

theorem collection_frequency_weight_formula_witness:
  "getCollectionFrequency exampleCorpus ''cd'' = 2 \<and>
   length (getDocumentIdentifiers exampleCorpus) = 2 \<and>
   getCollectionFrequencyWeight exampleCorpus ''cd'' = Some (ln 3 - ln 2) \<and>
   0 < ln 3 - ln (2::real)"
proof -
  have h: "1 \<le> getCollectionFrequency exampleCorpus ''cd''"
    by (simp add: exampleCorpus_frequencies)
  from collection_frequency_weight_formula[OF h] show ?thesis
    by (simp add: exampleCorpus_frequencies exampleCorpus_identifiers)
qed

text \<open>
  Claim C6. For a term that the stopword predicate accepts, the collection frequency is
  0 and the collection frequency weight is the absent value, whatever the documents
  contain; a weight that is present is never the number zero (it is positive); and every
  document still reports the number of occurrences of the term as its term frequency.
\<close>

theorem stopword_collection_statistics:
  "Stopwords_includes (getStopwords c) t \<Longrightarrow>
   getCollectionFrequency c t = 0 \<and>
   getCollectionFrequencyWeight c t = None \<and>
   (\<forall>t' w. getCollectionFrequencyWeight c t' = Some w \<longrightarrow> 0 < w) \<and>
   (\<forall>d. getTermFrequency d t = count_list (words d) t)"
proof (intro conjI allI impI)
  assume sw: "Stopwords_includes (getStopwords c) t"
  then show cf: "getCollectionFrequency c t = 0"
    by (simp add: getCollectionFrequency_count getStopwords_def)
  then have "t \<notin> set (getTerms c)" by (simp add: getTerms_iff_frequency)
  then show "getCollectionFrequencyWeight c t = None"
    by (simp add: getCollectionFrequencyWeight_value)
  show "0 < w" if "getCollectionFrequencyWeight c t' = Some w" for t' w
    using that collectionFrequencyWeight_positive[of c t']
    by (auto simp: getCollectionFrequencyWeight_value getTerms_iff_frequency split: if_splits)
  show "getTermFrequency d t = count_list (words d) t" for d
    by (rule getTermFrequency_count)
qed

theorem stopword_collection_statistics_witness:
  "Stopwords_includes (getStopwords exampleCorpus) ''is'' \<and>
   getCollectionFrequency exampleCorpus ''is'' = 0 \<and>
   getCollectionFrequencyWeight exampleCorpus ''is'' = None \<and>
   getTermFrequency (Document [''cd'', ''is'']) ''is'' = 1"
proof -
  have h: "Stopwords_includes (getStopwords exampleCorpus) ''is''"
    by (simp add: getStopwords_def exampleCorpus_stopwords Stopwords_includes_def)
  from stopword_collection_statistics[OF h] h show ?thesis by simp
qed

lemma exampleCorpus_terms: "getTerms exampleCorpus = [''ab'', ''cd'']"
  by (simp add: getTerms_def calculateCollectionFrequencies_def exampleCorpus_documents
      exampleCorpus_stopwords Map_values_def Map_keys_def count_document_def getUniqueTerms_def
      calculateTermFrequencies_def count_word_def Map_get_def Stopwords_includes_def
      count_term_def Map_has_def)

section \<open>Corpus: document vectors\<close>

text \<open>
  Claim C1. In a corpus, the vector of every document has an entry for every term of
  the vocabulary (the terms of \<open>getTerms\<close>, in that order). For a document \<open>doc\<close> with
  identifier \<open>d\<close> and a vocabulary term \<open>t\<close> with \<open>tf = termFrequency(doc, t)\<close>, the entry
  is \<open>idf(t) * tf * (K1 + 1) / (K1 * (1 - b + b * ndl) + tf)\<close> when \<open>tf > 0\<close> and 0
  otherwise, where \<open>ndl\<close> is the length of \<open>doc\<close> divided by the average document length
  (the sum of the lengths over the number of documents).
\<close>

theorem document_vector_weights:
  assumes "c = Corpus_new docs opts"
    and "getDocument c d = Some doc"
    and "t \<in> set (getTerms c)"
  shows "\<exists>vector idf.
           getDocumentVector c d = Some vector \<and>
           Map_keys vector = getTerms c \<and>
           getCollectionFrequencyWeight c t = Some idf \<and>
           Map_get vector t =
             Some (if 0 < getTermFrequency doc t
                   then idf * real (getTermFrequency doc t) * (c_K1 c + 1) /
                        (c_K1 c *
                           (1 - c_b c +
                            c_b c *
                              (real (getLength doc) /
                               (real (sum_list (map getLength (Map_values (c_documents c)))) /
                                real (length (getDocumentIdentifiers c))))) +
                         real (getTermFrequency doc t))
                   else 0)"
proof -
  have dist: "distinct (map fst (c_documents c))"
    using assms(1) by (simp add: distinct_Corpus_new)
  have vec: "getDocumentVector c d = Some (documentVector c doc)"
    using getDocumentVector_value[OF dist, of d] assms(2) by simp
  obtain idf where idf: "getCollectionFrequencyWeight c t = Some idf"
    using assms(3) by (simp add: getCollectionFrequencyWeight_value)
  have avg: "avgLength c =
      real (sum_list (map getLength (Map_values (c_documents c)))) /
      real (length (getDocumentIdentifiers c))"
    by (simp add: avgLength_def totalLength_sum Map_size_def getDocumentIdentifiers_def
        Map_keys_def)
  have entry: "Map_get (documentVector c doc) t =
      Some (combinedWeight (c_K1 c) (c_b c) (real (getLength doc) / avgLength c) idf
        (getTermFrequency doc t))"
    by (simp add: Map_get_def map_of_documentVector idf)
  have keys: "Map_keys (documentVector c doc) = getTerms c"
    by (simp add: Map_keys_def keys_documentVector)
  from vec keys idf entry show ?thesis
    by (simp add: combinedWeight_def avg)
qed

theorem document_vector_weights_witness:
  "(\<exists>vector. getDocumentVector exampleCorpus ''d1'' = Some vector \<and>
      Map_keys vector = [''ab'', ''cd''] \<and>
      Map_get vector ''ab'' = Some (60 * ln 3 / 43)) \<and>
   (\<exists>vector. getDocumentVector exampleCorpus ''d2'' = Some vector \<and>
      Map_keys vector = [''ab'', ''cd''] \<and>
      Map_get vector ''ab'' = Some 0)"
proof -
  have c: "exampleCorpus =
      Corpus_new [(''d1'', Document [''ab'', ''cd'', ''ab'']), (''d2'', Document [''cd'', ''is''])]
        exampleOptions"
    by (simp add: exampleCorpus_def)
  have d1: "getDocument exampleCorpus ''d1'' = Some (Document [''ab'', ''cd'', ''ab''])"
    by (simp add: getDocument_def Map_get_def exampleCorpus_documents)
  have d2: "getDocument exampleCorpus ''d2'' = Some (Document [''cd'', ''is''])"
    by (simp add: getDocument_def Map_get_def exampleCorpus_documents)
  have t: "''ab'' \<in> set (getTerms exampleCorpus)"
    by (simp add: exampleCorpus_terms)
  have idf: "getCollectionFrequencyWeight exampleCorpus ''ab'' = Some (ln 3)"
    by (simp add: getCollectionFrequencyWeight_value exampleCorpus_terms
        exampleCorpus_frequencies exampleCorpus_documents Map_size_def)
  have 1: "\<exists>vector. getDocumentVector exampleCorpus ''d1'' = Some vector \<and>
      Map_keys vector = [''ab'', ''cd''] \<and>
      Map_get vector ''ab'' = Some (60 * ln 3 / 43)"
    using document_vector_weights[OF c d1 t]
    by (simp add: idf exampleCorpus_terms exampleCorpus_parameters exampleCorpus_identifiers
        exampleCorpus_documents getTermFrequency_count getLength_def Map_values_def)
  have 2: "\<exists>vector. getDocumentVector exampleCorpus ''d2'' = Some vector \<and>
      Map_keys vector = [''ab'', ''cd''] \<and>
      Map_get vector ''ab'' = Some 0"
    using document_vector_weights[OF c d2 t]
    by (simp add: idf exampleCorpus_terms getTermFrequency_count)
  from 1 2 show ?thesis by blast
qed

section \<open>Corpus: weights read from the vectors\<close>

lemma getDocument_of_identifier:
  "d \<in> set (getDocumentIdentifiers c) \<Longrightarrow> \<exists>doc. getDocument c d = Some doc"
proof -
  assume "d \<in> set (getDocumentIdentifiers c)"
  then have "d \<in> fst ` set (c_documents c)"
    by (simp add: getDocumentIdentifiers_def Map_keys_def)
  then have "map_of (c_documents c) d \<noteq> None" by (simp add: map_of_eq_None_iff)
  then show ?thesis by (auto simp: getDocument_def Map_get_def)
qed

lemma getDocument_unknown:
  "d \<notin> set (getDocumentIdentifiers c) \<Longrightarrow> getDocument c d = None"
  by (simp add: getDocumentIdentifiers_def Map_keys_def getDocument_def Map_get_def
      map_of_eq_None_iff)

lemma documentWeight_value:
  assumes "distinct (map fst (c_documents c))" and "getDocument c d = Some doc"
  shows "documentWeight c d t = weightOf (documentVector c doc) t"
  using getDocumentVector_value[OF assms(1), of d] assms(2) by (simp add: documentWeight_def)

lemma documentWeight_outside_vocabulary:
  assumes "distinct (map fst (c_documents c))" and "t \<notin> set (getTerms c)"
  shows "documentWeight c d t = 0"
proof (cases "getDocument c d")
  case None
  with getDocumentVector_value[OF assms(1), of d] show ?thesis by (simp add: documentWeight_def)
next
  case (Some doc)
  have "map_of (documentVector c doc) t = None"
    using assms(2) keys_documentVector[of c doc]
    by (metis map_of_eq_None_iff set_map)
  with documentWeight_value[OF assms(1) Some] show ?thesis
    by (simp add: weightOf_def Map_get_def)
qed

lemma map_of_entry: "distinct (map fst xs) \<Longrightarrow> e \<in> set xs \<Longrightarrow> map_of xs (fst e) = Some (snd e)"
  by (cases e) simp

lemma weightOf_entry:
  "distinct (map fst xs) \<Longrightarrow> e \<in> set xs \<Longrightarrow> weightOf (map (\<lambda>e. (fst e, f e)) xs) (fst e) = f e"
  by (simp add: weightOf_def Map_get_def map_of_map_entries map_of_entry)

section \<open>Corpus: common terms\<close>

lemma commonScore_entries:
  assumes "distinct (map fst xs)"
  shows "map (commonScore (map (\<lambda>e. (fst e, g e)) xs)) (map (\<lambda>e. (fst e, f e)) xs) =
         map (\<lambda>e. (fst e, Some (f e * g e))) xs"
proof -
  have "commonScore (map (\<lambda>e. (fst e, g e)) xs) (fst e, f e) = (fst e, Some (f e * g e))"
    if "e \<in> set xs" for e
    using map_of_entry[OF assms that]
    by (simp add: commonScore_def Map_get_def map_of_map_entries)
  then show ?thesis by simp
qed

lemma positiveScores_Some:
  "positiveScores (map (\<lambda>e. (k e, Some (s e))) xs) =
     filter (\<lambda>d. 0 < snd d) (map (\<lambda>e. (k e, s e)) xs)"
  by (induction xs) (simp_all add: positiveScores_def List.map_filter_simps)

lemma common_products:
  assumes "distinct (map fst (c_documents c))"
    and "getDocument c a = Some da" and "getDocument c b = Some db"
  shows "positiveScores (map (commonScore (documentVector c db)) (documentVector c da)) =
         filter (\<lambda>d. 0 < snd d)
           (map (\<lambda>t. (t, documentWeight c a t * documentWeight c b t)) (getTerms c))"
proof -
  let ?cfw = "calculateCollectionFrequencyWeights c"
  let ?f = "\<lambda>doc e. combinedWeight (c_K1 c) (c_b c) (real (getLength doc) / avgLength c) (snd e)
              (getTermFrequency doc (fst e))"
  have dist: "distinct (map fst ?cfw)"
    using distinct_collectionFrequencies[of c]
    by (simp add: keys_collectionFrequencyWeights getTerms_def Map_keys_def)
  have va: "documentVector c da = map (\<lambda>e. (fst e, ?f da e)) ?cfw"
    by (rule documentVector_map)
  have vb: "documentVector c db = map (\<lambda>e. (fst e, ?f db e)) ?cfw"
    by (rule documentVector_map)
  have wa: "documentWeight c a (fst e) = ?f da e" if "e \<in> set ?cfw" for e
    using weightOf_entry[OF dist that, of "?f da"] documentWeight_value[OF assms(1,2)]
    by (simp add: va)
  have wb: "documentWeight c b (fst e) = ?f db e" if "e \<in> set ?cfw" for e
    using weightOf_entry[OF dist that, of "?f db"] documentWeight_value[OF assms(1,3)]
    by (simp add: vb)
  have "map (\<lambda>e. (fst e, ?f da e * ?f db e)) ?cfw =
        map (\<lambda>e. (fst e, documentWeight c a (fst e) * documentWeight c b (fst e))) ?cfw"
    by (rule map_cong) (simp_all add: wa wb)
  also have "\<dots> = map (\<lambda>t. (t, documentWeight c a t * documentWeight c b t)) (map fst ?cfw)"
    by (simp add: comp_def)
  finally have m: "map (\<lambda>e. (fst e, ?f da e * ?f db e)) ?cfw =
        map (\<lambda>t. (t, documentWeight c a t * documentWeight c b t)) (getTerms c)"
    by (simp add: keys_collectionFrequencyWeights)
  have "map (commonScore (documentVector c db)) (documentVector c da) =
        map (\<lambda>e. (fst e, Some (?f da e * ?f db e))) ?cfw"
    unfolding va vb by (rule commonScore_entries[OF dist])
  then show ?thesis by (simp only: positiveScores_Some m)
qed

lemma getCommonTerms_value:
  assumes "distinct (map fst (c_documents c))"
    and "a \<in> set (getDocumentIdentifiers c)" and "b \<in> set (getDocumentIdentifiers c)"
  shows "getCommonTerms c a b n =
     Inr (take n (sort_descending (filter (\<lambda>d. 0 < snd d)
       (map (\<lambda>t. (t, documentWeight c a t * documentWeight c b t)) (getTerms c)))))"
proof -
  obtain da where da: "getDocument c a = Some da"
    using getDocument_of_identifier[OF assms(2)] by blast
  obtain db where db: "getDocument c b = Some db"
    using getDocument_of_identifier[OF assms(3)] by blast
  have va: "getDocumentVector c a = Some (documentVector c da)"
    using getDocumentVector_value[OF assms(1), of a] da by simp
  have vb: "getDocumentVector c b = Some (documentVector c db)"
    using getDocumentVector_value[OF assms(1), of b] db by simp
  show ?thesis
    by (simp add: getCommonTerms_def va vb common_products[OF assms(1) da db])
qed

lemma getCommonTerms_unknown_first:
  assumes "distinct (map fst (c_documents c))" and "a \<notin> set (getDocumentIdentifiers c)"
  shows "getCommonTerms c a b n = Inl TypeError"
  using getDocumentVector_value[OF assms(1), of a] getDocument_unknown[OF assms(2)]
  by (simp add: getCommonTerms_def)

lemma getCommonTerms_unknown_second:
  assumes "distinct (map fst (c_documents c))" and "a \<in> set (getDocumentIdentifiers c)"
    and "b \<notin> set (getDocumentIdentifiers c)" and "getTerms c \<noteq> []"
  shows "getCommonTerms c a b n = Inl TypeError"
proof -
  obtain da where da: "getDocument c a = Some da"
    using getDocument_of_identifier[OF assms(2)] by blast
  have va: "getDocumentVector c a = Some (documentVector c da)"
    using getDocumentVector_value[OF assms(1), of a] da by simp
  have vb: "getDocumentVector c b = None"
    using getDocumentVector_value[OF assms(1), of b] getDocument_unknown[OF assms(3)] by simp
  have "documentVector c da \<noteq> []"
    using keys_documentVector[of c da] assms(4) by auto
  then show ?thesis by (simp add: getCommonTerms_def va vb)
qed

text \<open>
  Claim C8. For two identifiers of a corpus, \<open>getCommonTerms(a, b)\<close> and
  \<open>getCommonTerms(b, a)\<close> return the same pairs of a term and a score (here even in the
  same order), the score of a term being \<open>weight(a, term) * weight(b, term)\<close>: the
  result lists the vocabulary terms with a positive product, sorted by descending
  product and cut at \<open>maxTerms\<close>.
\<close>

theorem getCommonTerms_symmetric:
  assumes "c = Corpus_new docs opts"
    and "a \<in> set (getDocumentIdentifiers c)" and "b \<in> set (getDocumentIdentifiers c)"
  shows "getCommonTerms c a b n =
           Inr (take n (sort_descending (filter (\<lambda>d. 0 < snd d)
             (map (\<lambda>t. (t, documentWeight c a t * documentWeight c b t)) (getTerms c))))) \<and>
         getCommonTerms c b a n = getCommonTerms c a b n"
proof -
  have dist: "distinct (map fst (c_documents c))"
    using assms(1) by (simp add: distinct_Corpus_new)
  have "(\<lambda>t. (t, documentWeight c b t * documentWeight c a t)) =
        (\<lambda>t. (t, documentWeight c a t * documentWeight c b t))"
    by (simp add: mult.commute)
  then show ?thesis
    by (simp add: getCommonTerms_value[OF dist assms(2,3)] getCommonTerms_value[OF dist assms(3,2)])
qed

lemma exampleCorpus_distinct: "distinct (map fst (c_documents exampleCorpus))"
  by (simp add: exampleCorpus_documents)

lemma exampleCorpus_avgLength: "avgLength exampleCorpus = 5 / 2"
  by (simp add: avgLength_def totalLength_sum exampleCorpus_documents Map_values_def Map_size_def
      getLength_def)

lemma exampleCorpus_idf:
  "getCollectionFrequencyWeight exampleCorpus ''ab'' = Some (ln 3)"
  "getCollectionFrequencyWeight exampleCorpus ''cd'' = Some (ln 3 - ln 2)"
  by (simp_all add: getCollectionFrequencyWeight_value exampleCorpus_terms
      exampleCorpus_frequencies exampleCorpus_documents Map_size_def)

lemma exampleCorpus_weights:
  "documentWeight exampleCorpus ''d1'' ''ab'' = 60 * ln 3 / 43"
  "documentWeight exampleCorpus ''d1'' ''cd'' = 10 * (ln 3 - ln 2) / 11"
  "documentWeight exampleCorpus ''d2'' ''ab'' = 0"
  "documentWeight exampleCorpus ''d2'' ''cd'' = 10 * (ln 3 - ln 2) / 9"
proof -
  have d1: "getDocument exampleCorpus ''d1'' = Some (Document [''ab'', ''cd'', ''ab''])"
    by (simp add: getDocument_def Map_get_def exampleCorpus_documents)
  have d2: "getDocument exampleCorpus ''d2'' = Some (Document [''cd'', ''is''])"
    by (simp add: getDocument_def Map_get_def exampleCorpus_documents)
  note w1 = documentWeight_value[OF exampleCorpus_distinct d1]
  note w2 = documentWeight_value[OF exampleCorpus_distinct d2]
  show "documentWeight exampleCorpus ''d1'' ''ab'' = 60 * ln 3 / 43"
    by (simp add: w1 weightOf_def Map_get_def map_of_documentVector exampleCorpus_idf
        combinedWeight_def exampleCorpus_parameters exampleCorpus_avgLength
        getTermFrequency_count getLength_def)
  show "documentWeight exampleCorpus ''d1'' ''cd'' = 10 * (ln 3 - ln 2) / 11"
    by (simp add: w1 weightOf_def Map_get_def map_of_documentVector exampleCorpus_idf
        combinedWeight_def exampleCorpus_parameters exampleCorpus_avgLength
        getTermFrequency_count getLength_def)
  show "documentWeight exampleCorpus ''d2'' ''ab'' = 0"
    by (simp add: w2 weightOf_def Map_get_def map_of_documentVector exampleCorpus_idf
        combinedWeight_def getTermFrequency_count)
  show "documentWeight exampleCorpus ''d2'' ''cd'' = 10 * (ln 3 - ln 2) / 9"
    by (simp add: w2 weightOf_def Map_get_def map_of_documentVector exampleCorpus_idf
        combinedWeight_def exampleCorpus_parameters exampleCorpus_avgLength
        getTermFrequency_count getLength_def)
qed

lemma ln3_gt_ln2: "ln (2::real) < ln 3"
  by simp

theorem getCommonTerms_symmetric_witness:
  "getCommonTerms exampleCorpus ''d1'' ''d2'' 10 =
     Inr [(''cd'', (10 * (ln 3 - ln 2) / 11) * (10 * (ln 3 - ln 2) / 9))] \<and>
   getCommonTerms exampleCorpus ''d2'' ''d1'' 10 = getCommonTerms exampleCorpus ''d1'' ''d2'' 10"
proof -
  have c: "exampleCorpus =
      Corpus_new [(''d1'', Document [''ab'', ''cd'', ''ab'']), (''d2'', Document [''cd'', ''is''])]
        exampleOptions"
    by (simp add: exampleCorpus_def)
  have a: "''d1'' \<in> set (getDocumentIdentifiers exampleCorpus)"
    by (simp add: exampleCorpus_identifiers)
  have b: "''d2'' \<in> set (getDocumentIdentifiers exampleCorpus)"
    by (simp add: exampleCorpus_identifiers)
  have pos: "0 < (10 * (ln 3 - ln 2) / 11) * (10 * (ln 3 - ln (2::real)) / 9)"
    using ln3_gt_ln2 by simp
  from getCommonTerms_symmetric[OF c a b, of 10] pos show ?thesis
    by (simp add: exampleCorpus_terms exampleCorpus_weights sort_descending_def)
qed

text \<open>
  Claim C5 at an identifier that the corpus does not have: \<open>getCommonTerms\<close> reads
  \<open>.entries()\<close>, or \<open>.get(term)\<close>, of the \<open>undefined\<close> vector and throws a \<open>TypeError\<close>,
  where \<open>getDocumentVector\<close> returns \<open>undefined\<close> and \<open>getTopTermsForDocument\<close> returns
  the empty array.
\<close>

theorem getCommonTerms_unknown_identifier_raises:
  "getCommonTerms exampleCorpus ''nope'' ''d1'' 10 = Inl TypeError \<and>
   getCommonTerms exampleCorpus ''d1'' ''nope'' 10 = Inl TypeError \<and>
   getDocumentVector exampleCorpus ''nope'' = None \<and>
   getTopTermsForDocument exampleCorpus ''nope'' 30 = []"
proof -
  have n: "''nope'' \<notin> set (getDocumentIdentifiers exampleCorpus)"
    by (simp add: exampleCorpus_identifiers)
  have a: "''d1'' \<in> set (getDocumentIdentifiers exampleCorpus)"
    by (simp add: exampleCorpus_identifiers)
  have t: "getTerms exampleCorpus \<noteq> []" by (simp add: exampleCorpus_terms)
  have v: "getDocumentVector exampleCorpus ''nope'' = None"
    using getDocumentVector_value[OF exampleCorpus_distinct, of "''nope''"]
      getDocument_unknown[OF n] by simp
  show ?thesis
    using getCommonTerms_unknown_first[OF exampleCorpus_distinct n, of "''d1''" 10]
      getCommonTerms_unknown_second[OF exampleCorpus_distinct a n t, of 10] v
    by (simp add: getTopTermsForDocument_def)
qed

section \<open>Corpus: query results\<close>

lemma queryScore_sum: "queryScore vector terms = (\<Sum>t\<leftarrow>terms. weightOf vector t)"
proof -
  have "fold (\<lambda>t score. case Map_get vector t of None \<Rightarrow> score
                | Some weight \<Rightarrow> if weight \<noteq> 0 then score + weight else score) terms a =
        a + (\<Sum>t\<leftarrow>terms. weightOf vector t)" for a
    by (induction terms arbitrary: a) (simp_all add: weightOf_def split: option.splits)
  then show ?thesis by (simp add: queryScore_def)
qed

lemma documentScores_value:
  assumes "distinct (map fst (c_documents c))"
  shows "set ds \<subseteq> set (getDocumentIdentifiers c) \<Longrightarrow>
         documentScores c terms ds =
           Inr (map (\<lambda>d. (d, \<Sum>t\<leftarrow>terms. documentWeight c d t)) ds)"
proof (induction ds)
  case Nil
  then show ?case by simp
next
  case (Cons d ds)
  then obtain doc where doc: "getDocument c d = Some doc"
    using getDocument_of_identifier[of d c] by auto
  have v: "getDocumentVector c d = Some (documentVector c doc)"
    using getDocumentVector_value[OF assms, of d] doc by simp
  have "queryScore (documentVector c doc) terms = (\<Sum>t\<leftarrow>terms. documentWeight c d t)"
    by (simp add: queryScore_sum documentWeight_def v)
  with Cons v show ?case by simp
qed

lemma sort_descending_sorted: "sorted_wrt (\<lambda>x y. snd y \<le> snd x) (sort_descending xs)"
proof -
  have "sorted (map (\<lambda>d. - snd d) (sort_descending xs))"
    by (simp add: sort_descending_def)
  then show ?thesis by (simp add: sorted_map)
qed

lemma set_sort_descending: "set (sort_descending xs) = set xs"
  by (simp add: sort_descending_def)

lemma documentWeight_absent_term:
  assumes "distinct (map fst (c_documents c))" and "getDocument c d = Some doc"
    and "getTermFrequency doc t = 0"
  shows "documentWeight c d t = 0"
proof (cases "t \<in> set (getTerms c)")
  case True
  then show ?thesis
    by (simp add: documentWeight_value[OF assms(1,2)] weightOf_def Map_get_def
        map_of_documentVector getCollectionFrequencyWeight_value combinedWeight_def assms(3))
next
  case False
  then show ?thesis by (rule documentWeight_outside_vocabulary[OF assms(1)])
qed

lemma TextDocument_new_nonempty: "TextDocument_new q = Inr qd \<Longrightarrow> q \<noteq> []"
  by (auto simp: TextDocument_new_def match_letters_def)

text \<open>
  Claim C4. For a query string that tokenizes to at least one term,
  \<open>getResultsForQuery\<close> returns: every document identifier with its score, the sum over
  the unique terms of the query of the weight the document gives to the term (a term
  absent from the document, or outside the vocabulary, adds 0); only the pairs with a
  positive score; sorted by descending score.
\<close>

theorem getResultsForQuery_scores:
  assumes "c = Corpus_new docs opts"
    and "TextDocument_new q = Inr qd" and "words qd \<noteq> []"
  shows "\<exists>results.
           getResultsForQuery c (JSString q) = Inr results \<and>
           results =
             sort_descending (filter (\<lambda>d. 0 < snd d)
               (map (\<lambda>d. (d, \<Sum>t\<leftarrow>getUniqueTerms qd. documentWeight c d t))
                  (getDocumentIdentifiers c))) \<and>
           set results =
             {(d, s). d \<in> set (getDocumentIdentifiers c) \<and>
                      s = (\<Sum>t\<leftarrow>getUniqueTerms qd. documentWeight c d t) \<and> 0 < s} \<and>
           sorted_wrt (\<lambda>x y. snd y \<le> snd x) results \<and>
           distinct (getUniqueTerms qd) \<and> set (getUniqueTerms qd) = set (words qd) \<and>
           (\<forall>d t. t \<notin> set (getTerms c) \<longrightarrow> documentWeight c d t = 0) \<and>
           (\<forall>d doc t. getDocument c d = Some doc \<and> getTermFrequency doc t = 0 \<longrightarrow>
              documentWeight c d t = 0)"
proof -
  let ?terms = "getUniqueTerms qd"
  let ?scores = "map (\<lambda>d. (d, \<Sum>t\<leftarrow>?terms. documentWeight c d t)) (getDocumentIdentifiers c)"
  let ?results = "sort_descending (filter (\<lambda>d. 0 < snd d) ?scores)"
  have dist: "distinct (map fst (c_documents c))"
    using assms(1) by (simp add: distinct_Corpus_new)
  have q: "q \<noteq> []" by (rule TextDocument_new_nonempty[OF assms(2)])
  have terms: "queryToUniqueTerms (JSString q) = Inr ?terms"
    using q assms(2) by (simp add: queryToUniqueTerms_def)
  have "set ?terms \<noteq> {}" using assms(3) by (simp add: set_getUniqueTerms)
  then have nonempty: "length ?terms \<noteq> 0" by auto
  have scores: "documentScores c ?terms (getDocumentIdentifiers c) = Inr ?scores"
    by (rule documentScores_value[OF dist]) simp
  have 1: "getResultsForQuery c (JSString q) = Inr ?results"
    using terms nonempty scores by (simp add: getResultsForQuery_def)
  have 2: "set ?results =
             {(d, s). d \<in> set (getDocumentIdentifiers c) \<and>
                      s = (\<Sum>t\<leftarrow>?terms. documentWeight c d t) \<and> 0 < s}"
    by (auto simp: set_sort_descending)
  have 3: "sorted_wrt (\<lambda>x y. snd y \<le> snd x) ?results" by (rule sort_descending_sorted)
  have 4: "distinct ?terms \<and> set ?terms = set (words qd)"
    by (simp add: distinct_getUniqueTerms set_getUniqueTerms)
  have 5: "\<forall>d t. t \<notin> set (getTerms c) \<longrightarrow> documentWeight c d t = 0"
    using documentWeight_outside_vocabulary[OF dist] by blast
  have 6: "\<forall>d doc t. getDocument c d = Some doc \<and> getTermFrequency doc t = 0 \<longrightarrow>
              documentWeight c d t = 0"
    using documentWeight_absent_term[OF dist] by blast
  from 1 2 3 4 5 6 show ?thesis by blast
qed

theorem getResultsForQuery_scores_witness:
  "TextDocument_new ''ab! is ab'' = Inr (TextDocument [''ab'', ''is'', ''ab''] ''ab! is ab'') \<and>
   getResultsForQuery exampleCorpus (JSString ''ab! is ab'') = Inr [(''d1'', 60 * ln 3 / 43)]"
proof -
  have c: "exampleCorpus =
      Corpus_new [(''d1'', Document [''ab'', ''cd'', ''ab'']), (''d2'', Document [''cd'', ''is''])]
        exampleOptions"
    by (simp add: exampleCorpus_def)
  have q: "TextDocument_new ''ab! is ab'' =
      Inr (TextDocument [''ab'', ''is'', ''ab''] ''ab! is ab'')"
    by (simp add: TextDocument_new_def match_letters_def isLetter_def keep_word_def isDigit_def
        toLowerCase_def toLowerCase_char_def)
  have w: "words (TextDocument [''ab'', ''is'', ''ab''] ''ab! is ab'') \<noteq> []" by simp
  have u: "getUniqueTerms (TextDocument [''ab'', ''is'', ''ab''] ''ab! is ab'') = [''ab'', ''is'']"
    by (simp add: getUniqueTerms_def calculateTermFrequencies_def count_word_def Map_get_def
        Map_keys_def)
  have z: "documentWeight exampleCorpus d ''is'' = 0" for d
    by (rule documentWeight_outside_vocabulary[OF exampleCorpus_distinct])
       (simp add: exampleCorpus_terms)
  have pos: "0 < 60 * ln (3::real) / 43" by simp
  from getResultsForQuery_scores[OF c q w] q pos show ?thesis
    by (simp add: u z exampleCorpus_identifiers exampleCorpus_weights sort_descending_def)
qed

section \<open>Sums of products\<close>

lemma cross_term_bound:
  fixes a b s A B :: real
  assumes "s\<^sup>2 \<le> A * B" and "0 \<le> A" and "0 \<le> B"
  shows "2 * a * b * s \<le> a\<^sup>2 * B + b\<^sup>2 * A"
proof -
  have "(2 * a * b * s)\<^sup>2 = 4 * a\<^sup>2 * b\<^sup>2 * s\<^sup>2"
    by (simp add: power_mult_distrib)
  also have "\<dots> \<le> 4 * a\<^sup>2 * b\<^sup>2 * (A * B)"
    using assms(1) by (intro mult_left_mono) simp_all
  also have "\<dots> \<le> (a\<^sup>2 * B + b\<^sup>2 * A)\<^sup>2"
    using zero_le_power2[of "a\<^sup>2 * B - b\<^sup>2 * A"]
    by (simp add: power2_eq_square algebra_simps)
  finally have "(2 * a * b * s)\<^sup>2 \<le> (a\<^sup>2 * B + b\<^sup>2 * A)\<^sup>2" .
  moreover have "0 \<le> a\<^sup>2 * B + b\<^sup>2 * A" using assms(2,3) by simp
  ultimately have "\<bar>2 * a * b * s\<bar> \<le> a\<^sup>2 * B + b\<^sup>2 * A"
    by (metis abs_le_square_iff abs_of_nonneg)
  then show ?thesis by linarith
qed

lemma sum_list_squares_nonneg: "0 \<le> (\<Sum>x\<leftarrow>xs. f x * f x)" for f :: "'a \<Rightarrow> real"
  by (induction xs) simp_all

lemma sum_list_products_squared:
  fixes f g :: "'a \<Rightarrow> real"
  shows "(\<Sum>x\<leftarrow>xs. f x * g x)\<^sup>2 \<le> (\<Sum>x\<leftarrow>xs. f x * f x) * (\<Sum>x\<leftarrow>xs. g x * g x)"
proof (induction xs)
  case Nil
  then show ?case by simp
next
  case (Cons x xs)
  let ?s = "\<Sum>x\<leftarrow>xs. f x * g x" and ?A = "\<Sum>x\<leftarrow>xs. f x * f x" and ?B = "\<Sum>x\<leftarrow>xs. g x * g x"
  have c: "2 * f x * g x * ?s \<le> (f x)\<^sup>2 * ?B + (g x)\<^sup>2 * ?A"
    by (rule cross_term_bound[OF Cons.IH sum_list_squares_nonneg sum_list_squares_nonneg])
  have l: "(f x * g x + ?s)\<^sup>2 = (f x)\<^sup>2 * (g x)\<^sup>2 + 2 * f x * g x * ?s + ?s\<^sup>2"
    by (simp add: power2_eq_square algebra_simps)
  have r: "(f x * f x + ?A) * (g x * g x + ?B) =
           (f x)\<^sup>2 * (g x)\<^sup>2 + ((f x)\<^sup>2 * ?B + (g x)\<^sup>2 * ?A) + ?A * ?B"
    by (simp add: power2_eq_square algebra_simps)
  have "(f x * g x + ?s)\<^sup>2 \<le> (f x * f x + ?A) * (g x * g x + ?B)"
    unfolding l r using c Cons.IH by linarith
  then show ?case by simp
qed

lemma dot_le_norms:
  fixes f g :: "'a \<Rightarrow> real"
  shows "(\<Sum>x\<leftarrow>xs. f x * g x) \<le> sqrt (\<Sum>x\<leftarrow>xs. f x * f x) * sqrt (\<Sum>x\<leftarrow>xs. g x * g x)"
proof -
  have "(\<Sum>x\<leftarrow>xs. f x * g x) \<le> sqrt ((\<Sum>x\<leftarrow>xs. f x * f x) * (\<Sum>x\<leftarrow>xs. g x * g x))"
    by (rule real_le_rsqrt) (rule sum_list_products_squared)
  then show ?thesis by (simp add: real_sqrt_mult)
qed

lemma sum_list_products_nonneg:
  fixes f g :: "'a \<Rightarrow> real"
  assumes "\<And>x. 0 \<le> f x" and "\<And>x. 0 \<le> g x"
  shows "0 \<le> (\<Sum>x\<leftarrow>xs. f x * g x)"
  by (induction xs) (simp_all add: assms)

lemma sum_list_same_elements:
  fixes f :: "'a \<Rightarrow> real"
  assumes "distinct xs" and "distinct ys" and "set xs = set ys"
  shows "(\<Sum>x\<leftarrow>xs. f x) = (\<Sum>x\<leftarrow>ys. f x)"
  using assms by (simp add: sum_list_distinct_conv_sum_set)

lemma sum_list_squares_pos:
  fixes f :: "'a \<Rightarrow> real"
  shows "x \<in> set xs \<Longrightarrow> f x \<noteq> 0 \<Longrightarrow> 0 < (\<Sum>x\<leftarrow>xs. f x * f x)"
proof (induction xs)
  case Nil
  then show ?case by simp
next
  case (Cons y ys)
  have nn: "0 \<le> (\<Sum>x\<leftarrow>ys. f x * f x)" by (rule sum_list_squares_nonneg)
  show ?case
  proof (cases "f y = 0")
    case True
    with Cons show ?thesis by auto
  next
    case False
    then have "0 < f y * f y" by (auto simp: zero_less_mult_iff neq_iff)
    with nn show ?thesis by simp
  qed
qed

section \<open>Similarity: the cosine of two vectors\<close>

lemma set_nonZeroTerms:
  "set (nonZeroTerms A B) =
     {t \<in> set (Map_keys A) \<union> set (Map_keys B). weightOf A t \<noteq> 0 \<or> weightOf B t \<noteq> 0}"
  by (auto simp: nonZeroTerms_def)

lemma distinct_nonZeroTerms: "distinct (nonZeroTerms A B)"
  by (simp add: nonZeroTerms_def)

lemma weightOf_nonzero_key: "weightOf A t \<noteq> 0 \<Longrightarrow> t \<in> set (Map_keys A)"
proof -
  assume "weightOf A t \<noteq> 0"
  then have "map_of A t \<noteq> None"
    by (cases "map_of A t") (simp_all add: weightOf_def Map_get_def)
  then show ?thesis by (simp add: Map_keys_def map_of_eq_None_iff)
qed

lemma cosineSimilarity_commute: "cosineSimilarity A B = cosineSimilarity B A"
proof -
  have s: "set (nonZeroTerms A B) = set (nonZeroTerms B A)"
    by (auto simp: set_nonZeroTerms)
  have e: "(\<Sum>t\<leftarrow>nonZeroTerms A B. f t) = (\<Sum>t\<leftarrow>nonZeroTerms B A. f t)" for f :: "string \<Rightarrow> real"
    by (rule sum_list_same_elements[OF distinct_nonZeroTerms distinct_nonZeroTerms s])
  have d: "(\<Sum>t\<leftarrow>nonZeroTerms B A. weightOf B t * weightOf A t) =
           (\<Sum>t\<leftarrow>nonZeroTerms B A. weightOf A t * weightOf B t)"
    by (simp add: mult.commute)
  show ?thesis
    unfolding cosineSimilarity_def Let_def
      e[of "\<lambda>t. weightOf A t * weightOf B t"] e[of "\<lambda>t. weightOf A t * weightOf A t"]
      e[of "\<lambda>t. weightOf B t * weightOf B t"] d
    by (simp add: mult.commute disj_commute)
qed

lemma cosineSimilarity_bounds:
  assumes "\<And>t. 0 \<le> weightOf A t" and "\<And>t. 0 \<le> weightOf B t"
  shows "0 \<le> cosineSimilarity A B \<and> cosineSimilarity A B \<le> 1"
proof -
  let ?ts = "nonZeroTerms A B"
  let ?dot = "\<Sum>t\<leftarrow>?ts. weightOf A t * weightOf B t"
  let ?nA = "sqrt (\<Sum>t\<leftarrow>?ts. weightOf A t * weightOf A t)"
  let ?nB = "sqrt (\<Sum>t\<leftarrow>?ts. weightOf B t * weightOf B t)"
  show ?thesis
  proof (cases "?nA = 0 \<or> ?nB = 0")
    case True
    then show ?thesis by (simp add: cosineSimilarity_def Let_def)
  next
    case False
    have "0 \<le> ?nA" "0 \<le> ?nB" by (simp_all add: sum_list_squares_nonneg)
    with False have pos: "0 < ?nA * ?nB" by (simp add: zero_less_mult_iff less_le)
    have d0: "0 \<le> ?dot" by (rule sum_list_products_nonneg[OF assms])
    have d1: "?dot \<le> ?nA * ?nB" by (rule dot_le_norms)
    have c: "cosineSimilarity A B = ?dot / (?nA * ?nB)"
      using False by (simp add: cosineSimilarity_def Let_def)
    from pos d0 d1 show ?thesis unfolding c by simp
  qed
qed

lemma cosineSimilarity_self_nonzero:
  assumes "weightOf A t \<noteq> 0"
  shows "cosineSimilarity A A = 1"
proof -
  let ?S = "\<Sum>t\<leftarrow>nonZeroTerms A A. weightOf A t * weightOf A t"
  have "t \<in> set (nonZeroTerms A A)"
    using assms weightOf_nonzero_key[OF assms] by (simp add: set_nonZeroTerms)
  then have pos: "0 < ?S" using assms by (rule sum_list_squares_pos)
  then have "sqrt ?S \<noteq> 0" by simp
  moreover have "sqrt ?S * sqrt ?S = ?S" using pos by simp
  ultimately show ?thesis using pos by (simp add: cosineSimilarity_def Let_def)
qed

lemma cosineSimilarity_self_zero:
  assumes "\<And>t. weightOf A t = 0"
  shows "cosineSimilarity A A = 0"
proof -
  have "nonZeroTerms A A = []" by (simp add: nonZeroTerms_def assms)
  then show ?thesis by (simp add: cosineSimilarity_def Let_def)
qed

section \<open>Similarity: the vectors of a corpus\<close>

lemma combinedWeight_nonneg:
  assumes "0 \<le> k1" and "0 \<le> b'" and "b' \<le> 1" and "0 \<le> ndl" and "0 \<le> idf"
  shows "0 \<le> combinedWeight k1 b' ndl idf tf"
proof (cases "tf = 0")
  case True
  then show ?thesis by (simp add: combinedWeight_def)
next
  case False
  have "0 \<le> k1 * (1 - b' + b' * ndl)" using assms by simp
  then have "0 < k1 * (1 - b' + b' * ndl) + real tf" using False by linarith
  moreover have "0 \<le> idf * real tf * (k1 + 1)" using assms by simp
  ultimately show ?thesis using False by (simp add: combinedWeight_def)
qed

lemma combinedWeight_pos:
  assumes "0 \<le> k1" and "0 \<le> b'" and "b' \<le> 1" and "0 \<le> ndl" and "0 < idf" and "0 < tf"
  shows "0 < combinedWeight k1 b' ndl idf tf"
proof -
  have "0 \<le> k1 * (1 - b' + b' * ndl)" using assms by simp
  then have "0 < k1 * (1 - b' + b' * ndl) + real tf" using assms(6) by linarith
  moreover have "0 < idf * real tf * (k1 + 1)" using assms by simp
  ultimately show ?thesis using assms(6) by (simp add: combinedWeight_def)
qed

lemma normalized_length_nonneg: "0 \<le> real (getLength d) / avgLength c"
  by (simp add: avgLength_def)

lemma getCollectionFrequencyWeight_pos: "getCollectionFrequencyWeight c t = Some w \<Longrightarrow> 0 < w"
  using collectionFrequencyWeight_positive[of c t]
  by (auto simp: getCollectionFrequencyWeight_value getTerms_iff_frequency split: if_splits)

lemma weightOf_documentVector:
  "weightOf (documentVector c doc) t =
     (case getCollectionFrequencyWeight c t of
        None \<Rightarrow> 0
      | Some idf \<Rightarrow>
          combinedWeight (c_K1 c) (c_b c) (real (getLength doc) / avgLength c) idf
            (getTermFrequency doc t))"
  by (simp add: weightOf_def Map_get_def map_of_documentVector split: option.splits)

lemma weightOf_documentVector_nonneg:
  assumes "0 \<le> c_K1 c" and "0 \<le> c_b c" and "c_b c \<le> 1"
  shows "0 \<le> weightOf (documentVector c doc) t"
proof (cases "getCollectionFrequencyWeight c t")
  case None
  then show ?thesis by (simp add: weightOf_documentVector)
next
  case (Some idf)
  then have "0 \<le> idf" using getCollectionFrequencyWeight_pos[OF Some] by simp
  from combinedWeight_nonneg[OF assms normalized_length_nonneg this] Some
  show ?thesis by (simp add: weightOf_documentVector)
qed

lemma weightOf_documentVector_pos:
  assumes "0 \<le> c_K1 c" and "0 \<le> c_b c" and "c_b c \<le> 1"
    and "t \<in> set (getTerms c)" and "0 < getTermFrequency doc t"
  shows "0 < weightOf (documentVector c doc) t"
proof -
  obtain idf where idf: "getCollectionFrequencyWeight c t = Some idf"
    using assms(4) by (simp add: getCollectionFrequencyWeight_value)
  from combinedWeight_pos[OF assms(1-3) normalized_length_nonneg
      getCollectionFrequencyWeight_pos[OF idf] assms(5)] idf
  show ?thesis by (simp add: weightOf_documentVector)
qed

lemma vectorOf_document:
  assumes "distinct (map fst (c_documents c))" and "getDocument c d = Some doc"
  shows "vectorOf c d = documentVector c doc"
  using getDocumentVector_value[OF assms(1), of d] assms(2) by (simp add: vectorOf_def)

lemma vectorOf_unknown:
  assumes "distinct (map fst (c_documents c))" and "getDocument c d = None"
  shows "vectorOf c d = []"
  using getDocumentVector_value[OF assms(1), of d] assms(2) by (simp add: vectorOf_def)

lemma weightOf_vectorOf_nonneg:
  assumes "distinct (map fst (c_documents c))"
    and "0 \<le> c_K1 c" and "0 \<le> c_b c" and "c_b c \<le> 1"
  shows "0 \<le> weightOf (vectorOf c d) t"
proof (cases "getDocument c d")
  case None
  then show ?thesis by (simp add: vectorOf_unknown[OF assms(1)] weightOf_def Map_get_def)
next
  case (Some doc)
  then show ?thesis
    by (simp add: vectorOf_document[OF assms(1)] weightOf_documentVector_nonneg[OF assms(2-4)])
qed

lemma getDocument_in_values:
  "getDocument c d = Some doc \<Longrightarrow> doc \<in> set (Map_values (c_documents c))"
proof -
  assume "getDocument c d = Some doc"
  then have "(d, doc) \<in> set (c_documents c)"
    by (simp add: getDocument_def Map_get_def map_of_SomeD)
  then show ?thesis by (force simp: Map_values_def)
qed

lemma cosineSimilarity_self_document:
  assumes "distinct (map fst (c_documents c))"
    and "0 \<le> c_K1 c" and "0 \<le> c_b c" and "c_b c \<le> 1"
    and "getDocument c d = Some doc"
  shows "cosineSimilarity (vectorOf c d) (vectorOf c d) =
           (if \<exists>t\<in>set (words doc). \<not> Stopwords_includes (getStopwords c) t then 1 else 0)"
proof (cases "\<exists>t\<in>set (words doc). \<not> Stopwords_includes (getStopwords c) t")
  case True
  then obtain t where t: "t \<in> set (words doc)" "\<not> Stopwords_includes (c_stopwords c) t"
    by (auto simp: getStopwords_def)
  have "t \<in> set (getTerms c)"
    using t getDocument_in_values[OF assms(5)] by (auto simp: set_getTerms)
  moreover have "0 < getTermFrequency doc t"
  proof -
    have "count_list (words doc) t \<noteq> 0" using t(1) by (simp add: count_list_0_iff)
    then show ?thesis by (simp add: getTermFrequency_count)
  qed
  ultimately have "0 < weightOf (documentVector c doc) t"
    by (rule weightOf_documentVector_pos[OF assms(2-4)])
  then have "weightOf (vectorOf c d) t \<noteq> 0"
    by (simp add: vectorOf_document[OF assms(1,5)])
  from cosineSimilarity_self_nonzero[OF this] True show ?thesis by simp
next
  case False
  have "weightOf (vectorOf c d) t = 0" for t
  proof (cases "t \<in> set (getTerms c)")
    case True
    then have "\<not> Stopwords_includes (getStopwords c) t"
      by (simp add: set_getTerms getStopwords_def)
    with False have "t \<notin> set (words doc)" by blast
    then have "getTermFrequency doc t = 0" by (simp add: getTermFrequency_count)
    then show ?thesis
      by (simp add: vectorOf_document[OF assms(1,5)] weightOf_documentVector combinedWeight_def
          split: option.splits)
  next
    case False
    then show ?thesis
      by (simp add: vectorOf_document[OF assms(1,5)] weightOf_documentVector
          getCollectionFrequencyWeight_value)
  qed
  from cosineSimilarity_self_zero[of "vectorOf c d", OF this] False show ?thesis by simp
qed

lemma distanceMatrix_entry:
  assumes "i < length (getDocumentIdentifiers c)" and "j < length (getDocumentIdentifiers c)"
  shows "snd (distanceMatrix c) ! i ! j =
           (if i = j then 0
            else 1 - cosineSimilarity (vectorOf c (getDocumentIdentifiers c ! i))
                       (vectorOf c (getDocumentIdentifiers c ! j)))"
  using assms by (simp add: distanceMatrix_def Let_def)

lemma distanceMatrix_shape:
  "fst (distanceMatrix c) = getDocumentIdentifiers c \<and>
   length (snd (distanceMatrix c)) = length (getDocumentIdentifiers c) \<and>
   (\<forall>i<length (getDocumentIdentifiers c).
      length (snd (distanceMatrix c) ! i) = length (getDocumentIdentifiers c))"
  by (simp add: distanceMatrix_def Let_def)

text \<open>
  Claim C7, as amended. For every corpus with \<open>K1 \<ge> 0\<close> and \<open>b\<close> in \<open>[0, 1]\<close>, the
  distance matrix is square over the document identifiers in their order,
  \<open>matrix[i][i]\<close> is 0 for every \<open>i\<close>, \<open>matrix[i][j] = 1 - cosineSimilarity\<close> of the
  vectors of \<open>identifiers[i]\<close> and \<open>identifiers[j]\<close> for every \<open>i \<noteq> j\<close> (and also for
  \<open>i = j\<close> when the document contains a term that is not a stopword), the matrix is
  symmetric, and every entry lies in \<open>[0, 1]\<close>.
\<close>

theorem distanceMatrix_properties:
  assumes "c = Corpus_new docs opts"
    and "0 \<le> c_K1 c" and "0 \<le> c_b c" and "c_b c \<le> 1"
    and "distanceMatrix c = (identifiers, matrix)"
    and "i < length identifiers" and "j < length identifiers"
  shows "identifiers = getDocumentIdentifiers c \<and>
         length matrix = length identifiers \<and>
         length (matrix ! i) = length identifiers \<and>
         matrix ! i ! i = 0 \<and>
         (i \<noteq> j \<longrightarrow>
            matrix ! i ! j =
              1 - cosineSimilarity (vectorOf c (identifiers ! i)) (vectorOf c (identifiers ! j))) \<and>
         matrix ! i ! j = matrix ! j ! i \<and>
         0 \<le> matrix ! i ! j \<and> matrix ! i ! j \<le> 1 \<and>
         (\<exists>doc. getDocument c (identifiers ! i) = Some doc \<and>
            ((\<exists>t\<in>set (words doc). \<not> Stopwords_includes (getStopwords c) t) \<longrightarrow>
               matrix ! i ! i =
                 1 - cosineSimilarity (vectorOf c (identifiers ! i))
                       (vectorOf c (identifiers ! i))))"
proof -
  have dist: "distinct (map fst (c_documents c))"
    using assms(1) by (simp add: distinct_Corpus_new)
  have ids: "identifiers = getDocumentIdentifiers c"
    using assms(5) distanceMatrix_shape[of c] by (metis fst_conv)
  have m: "matrix = snd (distanceMatrix c)" using assms(5) by simp
  have i: "i < length (getDocumentIdentifiers c)" and j: "j < length (getDocumentIdentifiers c)"
    using assms(6,7) ids by simp_all
  have len: "length matrix = length identifiers \<and> length (matrix ! i) = length identifiers"
    using distanceMatrix_shape[of c] i by (simp add: m ids)
  have eii: "matrix ! i ! i = 0"
    using distanceMatrix_entry[OF i i] by (simp add: m)
  have eij: "matrix ! i ! j =
      1 - cosineSimilarity (vectorOf c (identifiers ! i)) (vectorOf c (identifiers ! j))"
    if "i \<noteq> j"
    using distanceMatrix_entry[OF i j] that by (simp add: m ids)
  have eji: "matrix ! j ! i =
      1 - cosineSimilarity (vectorOf c (identifiers ! j)) (vectorOf c (identifiers ! i))"
    if "i \<noteq> j"
    using distanceMatrix_entry[OF j i] that by (simp add: m ids)
  have sym: "matrix ! i ! j = matrix ! j ! i"
  proof (cases "i = j")
    case True
    then show ?thesis by simp
  next
    case False
    show ?thesis unfolding eij[OF False] eji[OF False] by (simp add: cosineSimilarity_commute)
  qed
  have bounds: "0 \<le> matrix ! i ! j \<and> matrix ! i ! j \<le> 1"
  proof (cases "i = j")
    case True
    then show ?thesis using eii by simp
  next
    case False
    from cosineSimilarity_bounds[of "vectorOf c (identifiers ! i)" "vectorOf c (identifiers ! j)",
        OF weightOf_vectorOf_nonneg[OF dist assms(2-4)] weightOf_vectorOf_nonneg[OF dist assms(2-4)]]
    show ?thesis unfolding eij[OF False] by simp
  qed
  have "identifiers ! i \<in> set (getDocumentIdentifiers c)" using i ids by simp
  then obtain doc where doc: "getDocument c (identifiers ! i) = Some doc"
    using getDocument_of_identifier by blast
  have diag: "matrix ! i ! i =
      1 - cosineSimilarity (vectorOf c (identifiers ! i)) (vectorOf c (identifiers ! i))"
    if "\<exists>t\<in>set (words doc). \<not> Stopwords_includes (getStopwords c) t"
    unfolding eii cosineSimilarity_self_document[OF dist assms(2-4) doc] using that by simp
  from ids len eii eij sym bounds doc diag show ?thesis by blast
qed

theorem distanceMatrix_properties_witness:
  "fst (distanceMatrix exampleCorpus) = [''d1'', ''d2''] \<and>
   length (snd (distanceMatrix exampleCorpus)) = 2 \<and>
   snd (distanceMatrix exampleCorpus) ! 0 ! 0 = 0 \<and>
   snd (distanceMatrix exampleCorpus) ! 0 ! 1 =
     1 - cosineSimilarity (vectorOf exampleCorpus ''d1'') (vectorOf exampleCorpus ''d2'') \<and>
   snd (distanceMatrix exampleCorpus) ! 0 ! 1 = snd (distanceMatrix exampleCorpus) ! 1 ! 0 \<and>
   0 \<le> snd (distanceMatrix exampleCorpus) ! 0 ! 1 \<and>
   snd (distanceMatrix exampleCorpus) ! 0 ! 1 \<le> 1 \<and>
   cosineSimilarity (vectorOf exampleCorpus ''d1'') (vectorOf exampleCorpus ''d1'') = 1"
proof -
  have c: "exampleCorpus =
      Corpus_new [(''d1'', Document [''ab'', ''cd'', ''ab'']), (''d2'', Document [''cd'', ''is''])]
        exampleOptions"
    by (simp add: exampleCorpus_def)
  have k: "0 \<le> c_K1 exampleCorpus" and b0: "0 \<le> c_b exampleCorpus"
    and b1: "c_b exampleCorpus \<le> 1"
    by (simp_all add: exampleCorpus_parameters)
  have ids: "fst (distanceMatrix exampleCorpus) = [''d1'', ''d2'']"
    by (simp add: distanceMatrix_def Let_def exampleCorpus_identifiers)
  have m: "distanceMatrix exampleCorpus =
      (fst (distanceMatrix exampleCorpus), snd (distanceMatrix exampleCorpus))"
    by simp
  have i: "0 < length (fst (distanceMatrix exampleCorpus))"
    and j: "1 < length (fst (distanceMatrix exampleCorpus))"
    by (simp_all add: ids)
  have d1: "getDocument exampleCorpus ''d1'' = Some (Document [''ab'', ''cd'', ''ab''])"
    by (simp add: getDocument_def Map_get_def exampleCorpus_documents)
  have sw: "\<not> Stopwords_includes (getStopwords exampleCorpus) ''ab''"
    by (simp add: getStopwords_def exampleCorpus_stopwords Stopwords_includes_def)
  from distanceMatrix_properties[OF c k b0 b1 m i j] ids d1 sw show ?thesis
    by auto
qed

text \<open>
  A document that has only stopwords has a zero vector: its cosine similarity with
  itself is 0 by the rule for a zero norm, so \<open>1 - cosineSimilarity\<close> is 1 there, while
  the diagonal entry is 0.
\<close>

theorem distanceMatrix_properties_counterexample:
  "snd (distanceMatrix
         (Corpus_new [(''d1'', Document [''ab'']), (''d2'', Document [''is''])] exampleOptions))
     ! 1 ! 1 = 0 \<and>
   1 - cosineSimilarity
         (vectorOf
            (Corpus_new [(''d1'', Document [''ab'']), (''d2'', Document [''is''])] exampleOptions)
            ''d2'')
         (vectorOf
            (Corpus_new [(''d1'', Document [''ab'']), (''d2'', Document [''is''])] exampleOptions)
            ''d2'') = 1"
proof -
  let ?c = "Corpus_new [(''d1'', Document [''ab'']), (''d2'', Document [''is''])] exampleOptions"
  have docs: "c_documents ?c = [(''d1'', Document [''ab'']), (''d2'', Document [''is''])]"
    by (simp add: Corpus_new_def Map_new_def)
  have dist: "distinct (map fst (c_documents ?c))" by (rule distinct_Corpus_new)
  have ids: "getDocumentIdentifiers ?c = [''d1'', ''d2'']"
    by (simp add: getDocumentIdentifiers_def Map_keys_def docs)
  have k: "0 \<le> c_K1 ?c" and b0: "0 \<le> c_b ?c" and b1: "c_b ?c \<le> 1"
    by (simp_all add: Corpus_new_def exampleOptions_def)
  have d2: "getDocument ?c ''d2'' = Some (Document [''is''])"
    by (simp add: getDocument_def Map_get_def docs)
  have sw: "Stopwords_includes (getStopwords ?c) ''is''"
    by (simp add: getStopwords_def Corpus_new_def exampleOptions_def Stopwords_from_def
        Stopwords_new_def Set_new_def Set_add_def Stopwords_includes_def)
  have 1: "cosineSimilarity (vectorOf ?c ''d2'') (vectorOf ?c ''d2'') = 0"
    using cosineSimilarity_self_document[OF dist k b0 b1 d2] sw by simp
  have 2: "snd (distanceMatrix ?c) ! 1 ! 1 = 0"
    using distanceMatrix_entry[of 1 ?c 1] by (simp add: ids)
  from 1 2 show ?thesis by simp
qed


end
